theory Spec2Isabelle
  imports Complex_Main "HOL-Library.Product_Lexorder" "HOL-Library.Multiset"
begin

section \<open>PowerTrim: engine and segment model\<close>

text \<open>
  A shallow embedding of \<^verbatim>\<open>powertrim_engine.py\<close> and of the segment model and
  command stack of \<^verbatim>\<open>PowerTrimGUI.py\<close>. Definitions come first, in the order of the
  source; the properties follow.
\<close>

subsection \<open>Python text\<close>

text \<open>
  A Python \<^verbatim>\<open>str\<close> is a sequence of code points. Where the source handles characters
  outside ASCII (\<^verbatim>\<open>sanitize_filename\<close>) a string is a list of code points; everywhere
  else the text is ASCII and is a HOL \<^typ>\<open>string\<close>.
\<close>

type_synonym ustr = "nat list"

text \<open>\<^verbatim>\<open>s.replace(a, b)\<close> for one-character \<^verbatim>\<open>a\<close> and \<^verbatim>\<open>b\<close>.\<close>

definition replace_char :: "nat \<Rightarrow> nat \<Rightarrow> ustr \<Rightarrow> ustr" where
  "replace_char a b s = map (\<lambda>c. if c = a then b else c) s"

text \<open>The character class \<^verbatim>\<open>[<>:"/\\|?*]\<close> of the regular expression, as code points.\<close>

definition illegal_chars :: "nat set" where
  "illegal_chars = {60, 62, 58, 34, 47, 92, 124, 63, 42}"

text \<open>\<^verbatim>\<open>re.sub(r'[<>:"/\\|?*]', '_', name)\<close>: every character of the class becomes \<^verbatim>\<open>_\<close> (95).\<close>

definition re_sub_illegal :: "ustr \<Rightarrow> ustr" where
  "re_sub_illegal s = map (\<lambda>c. if c \<in> illegal_chars then 95 else c) s"

text \<open>
  \<^verbatim>\<open>sanitize_filename\<close>: the fullwidth vertical bar U+FF5C becomes \<^verbatim>\<open>-\<close> (45), the
  fullwidth colon U+FF1A becomes \<^verbatim>\<open>:\<close> (58), then the class is replaced.
\<close>

definition sanitize_filename :: "ustr \<Rightarrow> ustr" where
  "sanitize_filename name = re_sub_illegal (replace_char 65306 58 (replace_char 65372 45 name))"

subsection \<open>Printing integers\<close>

text \<open>\<^verbatim>\<open>str(n)\<close> of a Python integer, as f-strings print it.\<close>

definition digit_char :: "nat \<Rightarrow> char" where
  "digit_char d = char_of (48 + d)"

function str_nat :: "nat \<Rightarrow> string" where
  "str_nat n = (if n < 10 then [digit_char n] else str_nat (n div 10) @ [digit_char (n mod 10)])"
  by pat_completeness auto
termination
  by (relation "measure (\<lambda>n. n)") auto

declare str_nat.simps [simp del]

definition str_int :: "int \<Rightarrow> string" where
  "str_int i = (if i < 0 then CHR ''-'' # str_nat (nat (- i)) else str_nat (nat i))"

subsection \<open>Track mapper\<close>

text \<open>
  A stream dictionary of \<^verbatim>\<open>ffprobe\<close>, with the keys the mapper reads: \<^verbatim>\<open>index\<close>,
  \<^verbatim>\<open>id\<close>, \<^verbatim>\<open>codec_type\<close> and \<^verbatim>\<open>tags.language\<close> (which may be absent).
\<close>

record stream =
  stream_index :: nat
  stream_id :: int
  codec_type :: string
  language :: "string option"

text \<open>\<^verbatim>\<open>str.lower()\<close> on ASCII text.\<close>

definition lower_char :: "char \<Rightarrow> char" where
  "lower_char c = (let n = (of_char c :: nat) in if 65 \<le> n \<and> n \<le> 90 then char_of (n + 32) else c)"

definition lower :: "string \<Rightarrow> string" where
  "lower s = map lower_char s"

text \<open>\<^verbatim>\<open>list.index(x)\<close>: the first position of \<^verbatim>\<open>x\<close>; \<open>None\<close> is the \<^verbatim>\<open>ValueError\<close>.\<close>

fun py_index :: "'a list \<Rightarrow> 'a \<Rightarrow> nat option" where
  "py_index [] x = None"
| "py_index (y # ys) x = (if y = x then Some 0 else map_option Suc (py_index ys x))"

text \<open>
  The local function \<^verbatim>\<open>sort_key\<close>: the language tag, \<^verbatim>\<open>'und'\<close> when absent, is
  lower-cased and looked up in the priority list; the \<^verbatim>\<open>except\<close> branch gives the length
  of the list.
\<close>

definition sort_key_track :: "string list \<Rightarrow> stream \<Rightarrow> nat \<times> int" where
  "sort_key_track lang_priority track =
     (let lang = lower (case language track of None \<Rightarrow> ''und'' | Some l \<Rightarrow> l)
      in case py_index lang_priority lang of
           Some p \<Rightarrow> (p, stream_id track)
         | None \<Rightarrow> (length lang_priority, stream_id track))"

text \<open>
  The two filtered lists after \<^verbatim>\<open>list.sort(key=sort_key)\<close>. Python's sort is stable and
  compares the key tuples lexicographically, as \<^const>\<open>sort_key\<close> does on pairs.
\<close>

definition audio_tracks :: "stream list \<Rightarrow> int list \<Rightarrow> string list \<Rightarrow> stream list" where
  "audio_tracks all_streams selected_track_ids lang_priority =
     sort_key (sort_key_track lang_priority)
       (filter (\<lambda>t. codec_type t = ''audio'' \<and> stream_id t \<in> set selected_track_ids) all_streams)"

definition subtitle_tracks :: "stream list \<Rightarrow> int list \<Rightarrow> string list \<Rightarrow> stream list" where
  "subtitle_tracks all_streams selected_track_ids lang_priority =
     sort_key (sort_key_track lang_priority)
       (filter (\<lambda>t. codec_type t = ''subtitle'' \<and> stream_id t \<in> set selected_track_ids) all_streams)"

text \<open>
  The loop \<^verbatim>\<open>for i, track in enumerate(tracks)\<close>, from position \<open>i\<close> on; \<open>k\<close> is the
  letter of the stream type in \<^verbatim>\<open>-disposition:a:i\<close>.
\<close>

fun map_tracks :: "char \<Rightarrow> nat \<Rightarrow> stream list \<Rightarrow> string list" where
  "map_tracks k i [] = []"
| "map_tracks k i (track # rest) =
     [''-map'', ''0:'' @ str_nat (stream_index track),
      ''-disposition:'' @ [k] @ '':'' @ str_nat i, if i = 0 then ''default'' else ''0'']
     @ map_tracks k (Suc i) rest"

fun map_video :: "stream list \<Rightarrow> string list" where
  "map_video [] = []"
| "map_video (track # rest) = [''-map'', ''0:'' @ str_nat (stream_index track)] @ map_video rest"

definition generate_ffmpeg_mapping_args :: "stream list \<Rightarrow> int list \<Rightarrow> string list \<Rightarrow> string list" where
  "generate_ffmpeg_mapping_args all_streams selected_track_ids lang_priority =
     (let video_streams = filter (\<lambda>t. codec_type t = ''video'') all_streams;
          args = map_video video_streams;
          audio = audio_tracks all_streams selected_track_ids lang_priority;
          subtitle = subtitle_tracks all_streams selected_track_ids lang_priority;
          args = args @ (if audio \<noteq> [] then map_tracks CHR ''a'' 0 audio else [''-an''])
      in args @ (if subtitle \<noteq> [] then map_tracks CHR ''s'' 0 subtitle else [''-sn'']))"

text \<open>
  The sort key as the specification words it: the position of the stream's language tag
  in the priority list, an unknown or absent language after all listed priorities; then
  the stream id.
\<close>

definition spec_sort_key :: "string list \<Rightarrow> stream \<Rightarrow> nat \<times> int" where
  "spec_sort_key lang_priority track =
     (case language track of
        None \<Rightarrow> (length lang_priority, stream_id track)
      | Some l \<Rightarrow>
          (case py_index lang_priority l of
             Some p \<Rightarrow> (p, stream_id track)
           | None \<Rightarrow> (length lang_priority, stream_id track)))"

text \<open>The directives of one sorted stream type, position by position.\<close>

definition directive :: "char \<Rightarrow> stream list \<Rightarrow> nat \<Rightarrow> string list" where
  "directive k tracks i =
     [''-map'', ''0:'' @ str_nat (stream_index (tracks ! i)),
      ''-disposition:'' @ [k] @ '':'' @ str_nat i, if i = 0 then ''default'' else ''0'']"

text \<open>The language tag the sort key looks up: lower-cased, \<^verbatim>\<open>'und'\<close> when absent.\<close>

definition lang_tag :: "stream \<Rightarrow> string" where
  "lang_tag t = lower (case language t of None \<Rightarrow> ''und'' | Some l \<Rightarrow> l)"

text \<open>The streams of the specification's example, all audio, and a pair with an untagged stream.\<close>

definition ex_streams :: "stream list" where
  "ex_streams = [\<lparr>stream_index = 1, stream_id = 1, codec_type = ''audio'', language = Some ''eng''\<rparr>,
                 \<lparr>stream_index = 2, stream_id = 2, codec_type = ''audio'', language = Some ''jpn''\<rparr>,
                 \<lparr>stream_index = 3, stream_id = 3, codec_type = ''audio'', language = Some ''und''\<rparr>]"

definition cx_streams :: "stream list" where
  "cx_streams = [\<lparr>stream_index = 0, stream_id = 1, codec_type = ''audio'', language = None\<rparr>,
                 \<lparr>stream_index = 1, stream_id = 2, codec_type = ''audio'', language = Some ''eng''\<rparr>]"

subsection \<open>Segment store\<close>

text \<open>
  \<^verbatim>\<open>Segment\<close> of \<^verbatim>\<open>PowerTrimGUI.py\<close>. The colour is an opaque display tag. The
  constructor replaces an empty name by \<^verbatim>\<open>Segment [start-end]\<close>.
\<close>

type_synonym color = nat

record segment =
  start_frame :: int
  end_frame :: int
  color :: color
  name :: string

text \<open>The tuples \<^verbatim>\<open>(start_frame, end_frame, color, name)\<close> the commands carry.\<close>

type_synonym seg_data = "int \<times> int \<times> color \<times> string"

definition Segment :: "seg_data \<Rightarrow> segment" where
  "Segment d =
     (case d of (s, e, c, n) \<Rightarrow>
        \<lparr>start_frame = s, end_frame = e, color = c,
         name = (if n = [] then ''Segment ['' @ str_int s @ ''-'' @ str_int e @ '']'' else n)\<rparr>)"

definition data_of :: "segment \<Rightarrow> seg_data" where
  "data_of seg = (start_frame seg, end_frame seg, color seg, name seg)"

text \<open>\<^verbatim>\<open>xs[i]\<close> with Python's negative indices; \<open>None\<close> is the \<^verbatim>\<open>IndexError\<close>.\<close>

definition py_nth :: "'a list \<Rightarrow> int \<Rightarrow> 'a option" where
  "py_nth xs i =
     (if 0 \<le> i \<and> i < int (length xs) then Some (xs ! nat i)
      else if i < 0 \<and> - int (length xs) \<le> i then Some (xs ! nat (int (length xs) + i))
      else None)"

text \<open>\<^verbatim>\<open>xs.insert(i, x)\<close>: a negative index counts from the end, and the position is clipped to the list.\<close>

definition py_insert :: "int \<Rightarrow> 'a \<Rightarrow> 'a list \<Rightarrow> 'a list" where
  "py_insert i x xs =
     (let n = int (length xs); j = (if i < 0 then max 0 (n + i) else min i n)
      in take (nat j) xs @ [x] @ drop (nat j) xs)"

text \<open>
  \<^verbatim>\<open>SegmentManager\<close>, on the list of segments. The \<^verbatim>\<open>model_changed\<close> signal only
  redraws the list view and is left out.
\<close>

definition add_segment :: "seg_data \<Rightarrow> int \<Rightarrow> segment list \<Rightarrow> segment list" where
  "add_segment data index segs =
     (if index = - 1 then segs @ [Segment data] else py_insert index (Segment data) segs)"

definition remove_segment :: "int \<Rightarrow> segment list \<Rightarrow> segment list" where
  "remove_segment index segs =
     (if 0 \<le> index \<and> index < int (length segs)
      then take (nat index) segs @ drop (Suc (nat index)) segs else segs)"

definition update_segment :: "int \<Rightarrow> seg_data \<Rightarrow> segment list \<Rightarrow> segment list" where
  "update_segment index data segs =
     (if 0 \<le> index \<and> index < int (length segs) then segs[nat index := Segment data] else segs)"

definition set_segments :: "seg_data list \<Rightarrow> segment list" where
  "set_segments segments_data = map Segment segments_data"

subsection \<open>Commands\<close>

text \<open>
  The command classes. A \<^verbatim>\<open>MergeSegmentsCommand\<close> carries its indices sorted in
  descending order, the merged data, and the two fields it fills at its first execution:
  \<^verbatim>\<open>original_data\<close> and \<^verbatim>\<open>insert_index\<close>.
\<close>

datatype command =
    AddSegmentCommand seg_data
  | DeleteSegmentCommand int seg_data
  | UpdateSegmentCommand int seg_data seg_data
  | ImportSegmentsCommand "seg_data list" "seg_data list"
  | MergeSegmentsCommand "int list" seg_data "seg_data list" int

text \<open>\<^verbatim>\<open>MergeSegmentsCommand.__init__\<close>.\<close>

definition new_MergeSegmentsCommand :: "int list \<Rightarrow> seg_data \<Rightarrow> command" where
  "new_MergeSegmentsCommand indices merged_data =
     MergeSegmentsCommand (rev (sort indices)) merged_data [] (- 1)"

text \<open>The loop that fills \<^verbatim>\<open>original_data\<close>; \<^verbatim>\<open>all_segs[index]\<close> may raise.\<close>

fun capture :: "segment list \<Rightarrow> int list \<Rightarrow> seg_data list option" where
  "capture all_segs [] = Some []"
| "capture all_segs (index # rest) =
     (case py_nth all_segs index of
        None \<Rightarrow> None
      | Some seg \<Rightarrow> map_option ((#) (data_of seg)) (capture all_segs rest))"

text \<open>
  The loop of \<^verbatim>\<open>MergeSegmentsCommand.undo\<close>: the i-th index, in ascending order, gets
  \<^verbatim>\<open>original_data[i]\<close>, which raises when the data is shorter than the indices.
\<close>

fun restore :: "int list \<Rightarrow> seg_data list \<Rightarrow> segment list \<Rightarrow> segment list option" where
  "restore [] original_data segs = Some segs"
| "restore (index # rest) [] segs = None"
| "restore (index # rest) (d # ds) segs = restore rest ds (add_segment d index segs)"

text \<open>
  \<^verbatim>\<open>execute\<close> of each command: the command as it is afterwards and the new list;
  \<open>None\<close> is an \<^verbatim>\<open>IndexError\<close>.
\<close>

fun cmd_execute :: "command \<Rightarrow> segment list \<Rightarrow> (command \<times> segment list) option" where
  "cmd_execute (AddSegmentCommand data) segs =
     Some (AddSegmentCommand data, add_segment data (- 1) segs)"
| "cmd_execute (DeleteSegmentCommand index data) segs =
     Some (DeleteSegmentCommand index data, remove_segment index segs)"
| "cmd_execute (UpdateSegmentCommand index old new) segs =
     Some (UpdateSegmentCommand index old new, update_segment index new segs)"
| "cmd_execute (ImportSegmentsCommand old new) segs =
     Some (ImportSegmentsCommand old new, set_segments new)"
| "cmd_execute (MergeSegmentsCommand indices merged_data original_data insert_index) segs =
     (case (if original_data = [] then capture segs (sort indices) else Some original_data) of
        None \<Rightarrow> None
      | Some original_data' \<Rightarrow>
          (let segs' = fold remove_segment indices segs
           in case py_nth indices (- 1) of
                None \<Rightarrow> None
              | Some insert_index' \<Rightarrow>
                  Some (MergeSegmentsCommand indices merged_data original_data' insert_index',
                        add_segment merged_data insert_index' segs')))"

text \<open>\<^verbatim>\<open>undo\<close> of each command.\<close>

fun cmd_undo :: "command \<Rightarrow> segment list \<Rightarrow> segment list option" where
  "cmd_undo (AddSegmentCommand data) segs = Some (remove_segment (int (length segs) - 1) segs)"
| "cmd_undo (DeleteSegmentCommand index data) segs = Some (add_segment data index segs)"
| "cmd_undo (UpdateSegmentCommand index old new) segs = Some (update_segment index old segs)"
| "cmd_undo (ImportSegmentsCommand old new) segs = Some (set_segments old)"
| "cmd_undo (MergeSegmentsCommand indices merged_data original_data insert_index) segs =
     restore (sort indices) original_data (remove_segment insert_index segs)"

subsection \<open>Undo manager\<close>

text \<open>
  The segment list together with the \<^verbatim>\<open>UndoManager\<close> that acts on it. The stacks are
  Python lists: \<^verbatim>\<open>append\<close> and \<^verbatim>\<open>pop\<close> work at the end. \<open>command_executed\<close>
  counts the emissions of the signal of that name, which marks the project dirty;
  \<open>warnings\<close> are the texts of the warning boxes shown.
\<close>

record state =
  segments :: "segment list"
  undo_stack :: "command list"
  redo_stack :: "command list"
  command_executed :: nat
  warnings :: "string list"

definition execute :: "state \<Rightarrow> command \<Rightarrow> state option" where
  "execute st cmd =
     (case cmd_execute cmd (segments st) of
        None \<Rightarrow> None
      | Some (cmd', segs') \<Rightarrow>
          Some (st\<lparr>segments := segs', undo_stack := undo_stack st @ [cmd'], redo_stack := [],
                  command_executed := Suc (command_executed st)\<rparr>))"

definition undo :: "state \<Rightarrow> state option" where
  "undo st =
     (if undo_stack st \<noteq> []
      then (let cmd = last (undo_stack st) in
            case cmd_undo cmd (segments st) of
              None \<Rightarrow> None
            | Some segs' \<Rightarrow>
                Some (st\<lparr>segments := segs', undo_stack := butlast (undo_stack st),
                        redo_stack := redo_stack st @ [cmd],
                        command_executed := Suc (command_executed st)\<rparr>))
      else Some (st\<lparr>command_executed := Suc (command_executed st)\<rparr>))"

definition redo :: "state \<Rightarrow> state option" where
  "redo st =
     (if redo_stack st \<noteq> []
      then (let cmd = last (redo_stack st) in
            case cmd_execute cmd (segments st) of
              None \<Rightarrow> None
            | Some (cmd', segs') \<Rightarrow>
                Some (st\<lparr>segments := segs', redo_stack := butlast (redo_stack st),
                        undo_stack := undo_stack st @ [cmd'],
                        command_executed := Suc (command_executed st)\<rparr>))
      else Some (st\<lparr>command_executed := Suc (command_executed st)\<rparr>))"

subsection \<open>Merging the selected segments\<close>

text \<open>The loop over adjacent pairs of the segments sorted by start.\<close>

fun adjacent_or_overlapping :: "segment list \<Rightarrow> bool" where
  "adjacent_or_overlapping (a # b # rest) =
     (if end_frame a < start_frame b - 1 then False else adjacent_or_overlapping (b # rest))"
| "adjacent_or_overlapping segs = True"

text \<open>\<^verbatim>\<open>max(...)\<close> of a non-empty sequence.\<close>

fun py_max :: "int list \<Rightarrow> int option" where
  "py_max [] = None"
| "py_max (x # xs) = Some (fold max xs x)"

text \<open>The selected items, each with its row and the segment it shows; a row without an item gives \<open>None\<close>.\<close>

fun selected_items :: "segment list \<Rightarrow> int list \<Rightarrow> (int \<times> segment) list option" where
  "selected_items segs [] = Some []"
| "selected_items segs (row # rows) =
     (if 0 \<le> row \<and> row < int (length segs)
      then map_option ((#) (row, segs ! nat row)) (selected_items segs rows)
      else None)"

text \<open>
  \<^verbatim>\<open>ProTrimmerWindow.merge_selected_segments\<close>; \<open>rows\<close> are the rows of the selected
  items of the list view, which shows the segments of the store in their order.
\<close>

definition merge_selected_segments :: "state \<Rightarrow> int list \<Rightarrow> state option" where
  "merge_selected_segments st rows =
     (case selected_items (segments st) rows of
        None \<Rightarrow> None
      | Some items \<Rightarrow>
          if length items < 2 then Some st
          else
            (let segs = sort_key (\<lambda>x. start_frame (snd x)) items in
             if \<not> adjacent_or_overlapping (map snd segs)
             then Some (st\<lparr>warnings := warnings st
                           @ [''Segments must be adjacent or overlapping to be combined.'']\<rparr>)
             else
               (case py_max (map (\<lambda>s. end_frame (snd s)) segs) of
                  None \<Rightarrow> None
                | Some new_end \<Rightarrow>
                    (let new_start = start_frame (snd (hd segs));
                         merged_data = (new_start, new_end, color (snd (hd segs)),
                            ''Merged ['' @ str_int new_start @ ''-'' @ str_int new_end @ '']'')
                     in execute st (new_MergeSegmentsCommand (map fst segs) merged_data)))))"

subsection \<open>Example states\<close>


definition st3 :: state where
  "st3 = \<lparr>segments = map Segment [(0, 10, 1, ''''), (10, 20, 2, ''B''), (30, 40, 3, '''')],
          undo_stack = [], redo_stack = [], command_executed = 0, warnings = []\<rparr>"

subsection \<open>Well-formed stores and commands\<close>

text \<open>Every segment made by the constructor has a name.\<close>

definition names_ok :: "segment list \<Rightarrow> bool" where
  "names_ok segs = list_all (\<lambda>s. name s \<noteq> []) segs"

text \<open>
  A command as its caller builds it from the store it is about to act on
  (\<^verbatim>\<open>PowerTrimGUI.py\<close>, lines 1164 to 1313): a delete carries the row of a segment and
  that segment's data, an update the row and its old data, an import the old contents, a
  merge distinct rows of the list, in descending order, with nothing captured yet.
\<close>

fun built_from :: "segment list \<Rightarrow> command \<Rightarrow> bool" where
  "built_from segs (AddSegmentCommand data) = True"
| "built_from segs (DeleteSegmentCommand index data) =
     (0 \<le> index \<and> index < int (length segs) \<and> data = data_of (segs ! nat index))"
| "built_from segs (UpdateSegmentCommand index old new) =
     (0 \<le> index \<and> index < int (length segs) \<and> old = data_of (segs ! nat index))"
| "built_from segs (ImportSegmentsCommand old new) = (old = map data_of segs)"
| "built_from segs (MergeSegmentsCommand indices merged_data original_data insert_index) =
     (original_data = [] \<and> insert_index = - 1 \<and> indices \<noteq> [] \<and> distinct indices
      \<and> indices = rev (sort indices)
      \<and> list_all (\<lambda>i. 0 \<le> i \<and> i < int (length segs)) indices)"

text \<open>A sequence of commands, each built from the store its predecessors leave.\<close>

fun built_seq :: "segment list \<Rightarrow> command list \<Rightarrow> bool" where
  "built_seq segs [] = True"
| "built_seq segs (cmd # cmds) =
     (built_from segs cmd \<and>
      (case cmd_execute cmd segs of None \<Rightarrow> False | Some (cmd', segs') \<Rightarrow> built_seq segs' cmds))"

text \<open>N calls of \<^verbatim>\<open>execute\<close>, of \<^verbatim>\<open>undo\<close> and of \<^verbatim>\<open>redo\<close>.\<close>

fun execute_all :: "state \<Rightarrow> command list \<Rightarrow> state option" where
  "execute_all st [] = Some st"
| "execute_all st (cmd # cmds) =
     (case execute st cmd of None \<Rightarrow> None | Some st' \<Rightarrow> execute_all st' cmds)"

fun undo_times :: "nat \<Rightarrow> state \<Rightarrow> state option" where
  "undo_times 0 st = Some st"
| "undo_times (Suc n) st = (case undo st of None \<Rightarrow> None | Some st' \<Rightarrow> undo_times n st')"

fun redo_times :: "nat \<Rightarrow> state \<Rightarrow> state option" where
  "redo_times 0 st = Some st"
| "redo_times (Suc n) st = (case redo st of None \<Rightarrow> None | Some st' \<Rightarrow> redo_times n st')"

text \<open>Five commands, one of each class, each built from the store the ones before it leave.\<close>

definition ex_cmds :: "command list" where
  "ex_cmds =
     [AddSegmentCommand (50, 60, 4, ''''),
      DeleteSegmentCommand 2 (30, 40, 3, ''Segment [30-40]''),
      UpdateSegmentCommand 0 (0, 10, 1, ''Segment [0-10]'') (0, 12, 1, ''''),
      new_MergeSegmentsCommand [0, 1] (0, 20, 1, ''Merged [0-20]''),
      ImportSegmentsCommand [(0, 20, 1, ''Merged [0-20]''), (50, 60, 4, ''Segment [50-60]'')]
        [(5, 6, 1, '''')]]"

subsection \<open>Merge candidates, as the specification words them\<close>

text \<open>The selected segments sorted by start, and the condition on neighbours:
  \<^verbatim>\<open>segment[i].end_frame >= segment[i+1].start_frame - 1\<close>.\<close>

definition selected_sorted :: "segment list \<Rightarrow> int list \<Rightarrow> segment list" where
  "selected_sorted segs rows = sort_key start_frame (map (\<lambda>r. segs ! nat r) rows)"

definition pairwise_adjacent :: "segment list \<Rightarrow> bool" where
  "pairwise_adjacent ss =
     list_all (\<lambda>i. end_frame (ss ! i) \<ge> start_frame (ss ! Suc i) - 1) [0..<length ss - 1]"

text \<open>A selection of the list view: distinct rows of the list.\<close>

definition selection :: "segment list \<Rightarrow> int list \<Rightarrow> bool" where
  "selection segs rows = (distinct rows \<and> list_all (\<lambda>r. 0 \<le> r \<and> r < int (length segs)) rows)"

text \<open>
  The data of the merged segment: from the least start to the greatest end of the selected
  segments, with the colour of the first of them in the order of their starts.
\<close>

definition merged_data_of :: "segment list \<Rightarrow> int list \<Rightarrow> seg_data" where
  "merged_data_of segs rows =
     (let ss = selected_sorted segs rows;
          new_start = Min (start_frame ` set ss);
          new_end = Max (end_frame ` set ss)
      in (new_start, new_end, color (hd ss),
          ''Merged ['' @ str_int new_start @ ''-'' @ str_int new_end @ '']''))"

subsection \<open>Progress of a trim\<close>

text \<open>
  The text \<^verbatim>\<open>ffmpeg\<close> writes to its error stream is taken as ASCII. Seconds are Python
  floats in the source; the model computes with exact rationals, on which the comparisons
  and the truncation below agree with the floats wherever the quotient is not within a
  rounding error of an integer.
\<close>

definition digit_of :: "char \<Rightarrow> nat option" where
  "digit_of c = (let n = (of_char c :: nat) in if 48 \<le> n \<and> n \<le> 57 then Some (n - 48) else None)"

text \<open>\<^verbatim>\<open>\d{2}\<close> at the head of the text: the number read and the text after it.\<close>

fun two_digits :: "string \<Rightarrow> (nat \<times> string) option" where
  "two_digits (a # b # rest) =
     (case digit_of a of
        None \<Rightarrow> None
      | Some x \<Rightarrow> (case digit_of b of None \<Rightarrow> None | Some y \<Rightarrow> Some (10 * x + y, rest)))"
| "two_digits s = None"

fun expect :: "char \<Rightarrow> string \<Rightarrow> string option" where
  "expect c [] = None"
| "expect c (x # rest) = (if x = c then Some rest else None)"

text \<open>
  The pattern \<^verbatim>\<open>time=(\d{2}:\d{2}:\d{2}\.\d{2})\<close> at the head of the text. The group
  \<^verbatim>\<open>HH:MM:SS.cc\<close> is kept as its four numbers.
\<close>

type_synonym time_group = "nat \<times> nat \<times> nat \<times> nat"

definition match_here :: "string \<Rightarrow> time_group option" where
  "match_here s =
     (if take 5 s = ''time='' then
        (case two_digits (drop 5 s) of None \<Rightarrow> None | Some (hh, s1) \<Rightarrow>
         case expect CHR '':'' s1 of None \<Rightarrow> None | Some s2 \<Rightarrow>
         case two_digits s2 of None \<Rightarrow> None | Some (mm, s3) \<Rightarrow>
         case expect CHR '':'' s3 of None \<Rightarrow> None | Some s4 \<Rightarrow>
         case two_digits s4 of None \<Rightarrow> None | Some (ss, s5) \<Rightarrow>
         case expect CHR ''.'' s5 of None \<Rightarrow> None | Some s6 \<Rightarrow>
         case two_digits s6 of None \<Rightarrow> None | Some (cc, s7) \<Rightarrow> Some (hh, mm, ss, cc))
      else None)"

text \<open>\<^verbatim>\<open>re.search\<close>: the leftmost match in the line.\<close>

fun re_search_time :: "string \<Rightarrow> time_group option" where
  "re_search_time [] = None"
| "re_search_time (c # cs) =
     (case match_here (c # cs) of Some g \<Rightarrow> Some g | None \<Rightarrow> re_search_time cs)"

text \<open>\<^verbatim>\<open>hhmmss_to_seconds\<close> on the matched group.\<close>

definition hhmmss_to_seconds :: "time_group \<Rightarrow> rat" where
  "hhmmss_to_seconds g =
     (case g of (hh, mm, ss, cc) \<Rightarrow>
        of_nat hh * 3600 + of_nat mm * 60 + (of_nat ss + of_nat cc / 100))"

text \<open>\<^verbatim>\<open>int(x)\<close> of a float: truncation towards zero.\<close>

definition py_int :: "rat \<Rightarrow> int" where
  "py_int x = (if 0 \<le> x then \<lfloor>x\<rfloor> else \<lceil>x\<rceil>)"

text \<open>Python exceptions, with their messages where the source gives one.\<close>

datatype error =
    ValueError string
  | RuntimeError string
  | FileNotFoundError string
  | ZeroDivisionError

text \<open>
  What the caller observes: the external processes started, the \<^verbatim>\<open>terminate\<close> of the
  running one, and the signals of the worker. A process is named by the tool and, for a
  trim, by the output file. Step texts are kept by kind.
\<close>

datatype process = Probe | CropDetect | Trim ustr | SmartCut ustr | Concat

datatype step =
    Analyzing
  | DetectedCrop string
  | ProcessingClip nat nat
  | ExportingClip nat nat ustr
  | MergingAllClips

datatype event =
    Started process
  | Terminated
  | ClipStarted nat nat
  | StepChanged step
  | ProgressUpdated int
  | Finished ustr
  | Failed error

text \<open>
  One run of an external trim, as the environment supplies it: whether the executable is
  found, the lines of its error stream, each with whether \<^verbatim>\<open>stop()\<close> has been called by
  the time the line is read, its return code, and whether \<^verbatim>\<open>stop()\<close> has been called by
  the time the segment's turn comes.
\<close>

record seg_run =
  stop_before :: bool
  found :: bool
  stderr_lines :: "(bool \<times> string) list"
  returncode :: int

datatype loop_outcome = LoopEnd | LoopCancelled | LoopRaised error

text \<open>
  The loop \<^verbatim>\<open>for line in process.stderr\<close> with a worker: the events, the flag
  \<^verbatim>\<open>_is_cancelled\<close> afterwards, and how the loop ends.
\<close>

fun stderr_loop :: "string \<Rightarrow> rat \<Rightarrow> bool \<Rightarrow> (bool \<times> string) list
    \<Rightarrow> event list \<times> bool \<times> loop_outcome" where
  "stderr_loop video_mode duration cancelled [] = ([], cancelled, LoopEnd)"
| "stderr_loop video_mode duration cancelled ((stop, line) # rest) =
     (if cancelled \<or> stop then ([Terminated], True, LoopCancelled)
      else
        (case re_search_time line of
           None \<Rightarrow> stderr_loop video_mode duration cancelled rest
         | Some g \<Rightarrow>
             if video_mode \<noteq> ''copy'' then
               (if duration = 0 then ([], cancelled, LoopRaised ZeroDivisionError)
                else
                  (let elapsed_time = hhmmss_to_seconds g;
                       percentage = py_int ((elapsed_time / duration) * 100);
                       (evs, c, out) = stderr_loop video_mode duration cancelled rest
                   in (ProgressUpdated (min 100 percentage) # evs, c, out)))
             else stderr_loop video_mode duration cancelled rest))"

datatype trim_outcome = TrimReturned | TrimRaised error

text \<open>
  \<^verbatim>\<open>trim_video_segment\<close> with a worker. The command line (seek times, crop filter,
  mapping arguments, codecs) does not bear on what is observed and is left out.
\<close>

definition trim_video_segment :: "ustr \<Rightarrow> rat \<Rightarrow> rat \<Rightarrow> string \<Rightarrow> seg_run \<Rightarrow> bool
    \<Rightarrow> event list \<times> bool \<times> trim_outcome" where
  "trim_video_segment output_video start_sec end_sec video_mode run cancelled =
     (let duration = end_sec - start_sec in
      if video_mode = ''smart-cut'' then
        (if \<not> found run then
           ([], cancelled, TrimRaised (FileNotFoundError ''`smartcut` command not found.''))
         else if returncode run \<noteq> 0 then
           ([Started (SmartCut output_video)], cancelled,
            TrimRaised (RuntimeError ''Error during smartcut''))
         else ([Started (SmartCut output_video), ProgressUpdated 100], cancelled, TrimReturned))
      else if \<not> found run then ([], cancelled, TrimRaised (FileNotFoundError ''ffmpeg''))
      else
        (case stderr_loop video_mode duration cancelled (stderr_lines run) of
           (evs, c, LoopCancelled) \<Rightarrow> (Started (Trim output_video) # evs, c, TrimReturned)
         | (evs, c, LoopRaised e) \<Rightarrow> (Started (Trim output_video) # evs, c, TrimRaised e)
         | (evs, c, LoopEnd) \<Rightarrow>
             if returncode run \<noteq> 0
             then (Started (Trim output_video) # evs, c, TrimRaised (RuntimeError ''FFmpeg failed''))
             else (Started (Trim output_video) # evs, c, TrimReturned)))"






subsection \<open>Output template\<close>

text \<open>
  A template as \<^verbatim>\<open>str.format\<close> reads it: literal text and replacement fields, \<^verbatim>\<open>{name}\<close>
  and the zero-padded \<^verbatim>\<open>{name:0Nd}\<close>. The values are the strings and integers of the
  dictionary \<^verbatim>\<open>seg_data\<close>.
\<close>

datatype piece = Lit string | Field string | FieldPad string nat

datatype val = StrVal ustr | IntVal int

definition codes :: "string \<Rightarrow> ustr" where
  "codes s = map of_char s"

text \<open>\<^verbatim>\<open>format(i, '0Nd')\<close>: the sign counts in the width.\<close>

definition pad_int :: "nat \<Rightarrow> int \<Rightarrow> string" where
  "pad_int w i =
     (let digits = str_nat (nat \<bar>i\<bar>); sign = (if i < 0 then ''-'' else [])
      in sign @ replicate (w - length sign - length digits) CHR ''0'' @ digits)"

text \<open>The exceptions of \<^verbatim>\<open>str.format\<close>: a missing key, and the code \<^verbatim>\<open>d\<close> on a string.\<close>

datatype format_error = KeyError string | UnknownFormatCode

text \<open>\<^verbatim>\<open>template.format(**data)\<close>: the fields are filled from left to right.\<close>

fun py_format :: "piece list \<Rightarrow> (string \<Rightarrow> val option) \<Rightarrow> format_error + ustr" where
  "py_format [] data = Inr []"
| "py_format (Lit s # rest) data =
     (case py_format rest data of Inl e \<Rightarrow> Inl e | Inr r \<Rightarrow> Inr (codes s @ r))"
| "py_format (Field n # rest) data =
     (case data n of
        None \<Rightarrow> Inl (KeyError n)
      | Some (StrVal s) \<Rightarrow> (case py_format rest data of Inl e \<Rightarrow> Inl e | Inr r \<Rightarrow> Inr (s @ r))
      | Some (IntVal i) \<Rightarrow>
          (case py_format rest data of Inl e \<Rightarrow> Inl e | Inr r \<Rightarrow> Inr (codes (str_int i) @ r)))"
| "py_format (FieldPad n w # rest) data =
     (case data n of
        None \<Rightarrow> Inl (KeyError n)
      | Some (StrVal s) \<Rightarrow> Inl UnknownFormatCode
      | Some (IntVal i) \<Rightarrow>
          (case py_format rest data of Inl e \<Rightarrow> Inl e | Inr r \<Rightarrow> Inr (codes (pad_int w i) @ r)))"

text \<open>
  \<^verbatim>\<open>format_output_filename\<close>: a \<^verbatim>\<open>KeyError\<close> becomes the \<^verbatim>\<open>ValueError\<close> of the
  source; the \<^verbatim>\<open>ValueError\<close> of \<^verbatim>\<open>str.format\<close> itself passes through.
\<close>

definition format_output_filename :: "piece list \<Rightarrow> (string \<Rightarrow> val option) \<Rightarrow> error + ustr" where
  "format_output_filename template data =
     (case py_format template data of
        Inr r \<Rightarrow> Inr r
      | Inl (KeyError n) \<Rightarrow>
          Inl (ValueError (''Invalid placeholder '' @ [CHR 0x27] @ ''{'' @ n @ ''}'' @ [CHR 0x27]
                 @ '' in output template.''))
      | Inl UnknownFormatCode \<Rightarrow> Inl (ValueError ''Unknown format code''))"




subsection \<open>Export job\<close>

text \<open>What \<^verbatim>\<open>get_video_metadata\<close> returns, and the ways it ends: before \<^verbatim>\<open>ffprobe\<close> is
  run (the input is missing, the tool is not found), after it (its output is not usable),
  or with the metadata.\<close>

record video_meta =
  meta_fps :: rat
  meta_duration :: rat
  meta_resolution :: ustr
  meta_streams :: "stream list"

datatype probe_outcome = ProbeNotRun error | ProbeFailed error | ProbeOk video_meta

datatype crop_outcome = CropToolMissing | CropResult "string option"

text \<open>
  The environment of one job: the outcome of the probe and of the crop detection, the run
  of the trim of each segment (counted from 0), whether \<^verbatim>\<open>stop()\<close> has been called by the
  check before the merge, the outcome of the concatenation, and the clock.
\<close>

record world =
  probe :: probe_outcome
  crop :: crop_outcome
  runs :: "nat \<Rightarrow> seg_run"
  stop_before_merge :: bool
  concat_error :: "string option"
  now_date :: ustr
  now_time :: ustr

text \<open>The \<^verbatim>\<open>settings\<close> dictionary.\<close>

record settings =
  input_stem :: ustr
  input_suffix :: ustr
  mode :: string
  segments_raw :: "(int \<times> int) list"
  output_template :: "piece list"
  merge :: bool
  video_mode :: string
  autocrop :: bool
  lang_priority :: "string list"
  selected_track_ids :: "int list"
  output_dir :: ustr
  output_file :: ustr

text \<open>\<^verbatim>\<open>a in b\<close> on strings.\<close>

fun contains :: "string \<Rightarrow> string \<Rightarrow> bool" where
  "contains pat [] = (pat = [])"
| "contains pat (c # cs) = (take (length pat) (c # cs) = pat \<or> contains pat cs)"

definition video_extension :: "settings \<Rightarrow> ustr" where
  "video_extension st =
     (if video_mode st = ''ffv1'' then codes ''.mkv''
      else if contains ''re-encode'' (video_mode st) then codes ''.mp4''
      else input_suffix st)"

text \<open>\<^verbatim>\<open>base_template_data | {"num": ..., "start": ..., "end": ...}\<close>.\<close>

definition seg_template_data :: "settings \<Rightarrow> world \<Rightarrow> video_meta \<Rightarrow> nat \<Rightarrow> int \<times> int
    \<Rightarrow> string \<Rightarrow> val option" where
  "seg_template_data st w meta i raw =
     map_of [(''filename'', StrVal (sanitize_filename (input_stem st))),
             (''resolution'', StrVal (meta_resolution meta)),
             (''date'', StrVal (now_date w)),
             (''time'', StrVal (now_time w)),
             (''num'', IntVal (int i + 1)),
             (''start'', IntVal (fst raw)),
             (''end'', IntVal (snd raw))]"

type_synonym job_result = "event list \<times> bool \<times> (error + ustr)"

text \<open>
  The loop of the separate-clips branch from segment \<open>i\<close> on, over the raw segments paired
  with their times in seconds; \<open>cancelled\<close> is the flag \<^verbatim>\<open>_is_cancelled\<close> of the worker.
\<close>

fun clips_loop :: "settings \<Rightarrow> world \<Rightarrow> video_meta \<Rightarrow> nat \<Rightarrow> nat
    \<Rightarrow> ((int \<times> int) \<times> (rat \<times> rat)) list \<Rightarrow> bool \<Rightarrow> job_result" where
  "clips_loop st w meta total_clips i [] cancelled = ([], cancelled, Inr (output_dir st))"
| "clips_loop st w meta total_clips i ((raw, (start_s, end_s)) # rest) cancelled =
     (if cancelled \<or> stop_before (runs w i) then ([], True, Inr (codes ''Cancelled''))
      else
        (case format_output_filename (output_template st) (seg_template_data st w meta i raw) of
           Inl e \<Rightarrow> ([], cancelled, Inl e)
         | Inr output_name \<Rightarrow>
             (let output_path = output_name @ video_extension st;
                  evs0 = [ClipStarted (i + 1) total_clips,
                          StepChanged (ExportingClip (i + 1) total_clips output_path)]
              in case trim_video_segment output_path start_s end_s (video_mode st) (runs w i) cancelled of
                   (evs1, c, TrimRaised e) \<Rightarrow> (evs0 @ evs1, c, Inl e)
                 | (evs1, c, TrimReturned) \<Rightarrow>
                     (case clips_loop st w meta total_clips (Suc i) rest c of
                        (evs2, c', r) \<Rightarrow> (evs0 @ evs1 @ evs2, c', r)))))"

text \<open>
  The loop of the merge branch, which names its clips \<^verbatim>\<open>temp_001\<close>, \<^verbatim>\<open>temp_002\<close>, ...
  and never reads the template; then the check before the merge and the concatenation.
\<close>

fun merge_loop :: "settings \<Rightarrow> world \<Rightarrow> nat \<Rightarrow> nat \<Rightarrow> (rat \<times> rat) list \<Rightarrow> bool \<Rightarrow> job_result" where
  "merge_loop st w total_clips i [] cancelled =
     (if cancelled \<or> stop_before_merge w then ([], True, Inr (codes ''Cancelled''))
      else
        (case concat_error w of
           Some msg \<Rightarrow>
             ([StepChanged MergingAllClips, Started Concat], cancelled,
              Inl (RuntimeError (''Error during final merge:'' @ msg)))
         | None \<Rightarrow>
             ([StepChanged MergingAllClips, Started Concat], cancelled, Inr (output_file st))))"
| "merge_loop st w total_clips i ((start_s, end_s) # rest) cancelled =
     (if cancelled \<or> stop_before (runs w i) then ([], True, Inr (codes ''Cancelled''))
      else
        (let clip_path = codes (''temp_'' @ pad_int 3 (int i + 1)) @ video_extension st;
             evs0 = [ClipStarted (i + 1) total_clips, StepChanged (ProcessingClip (i + 1) total_clips)]
         in case trim_video_segment clip_path start_s end_s (video_mode st) (runs w i) cancelled of
              (evs1, c, TrimRaised e) \<Rightarrow> (evs0 @ evs1, c, Inl e)
            | (evs1, c, TrimReturned) \<Rightarrow>
                (case merge_loop st w total_clips (Suc i) rest c of
                   (evs2, c', r) \<Rightarrow> (evs0 @ evs1 @ evs2, c', r))))"

text \<open>\<^verbatim>\<open>detect_black_bars\<close> with a worker: its events, and the error it may raise.\<close>

definition detect_black_bars :: "world \<Rightarrow> event list \<times> error option" where
  "detect_black_bars w =
     (case crop w of
        CropToolMissing \<Rightarrow>
          ([StepChanged Analyzing], Some (FileNotFoundError ''`ffmpeg` command not found.''))
      | CropResult None \<Rightarrow> ([StepChanged Analyzing, Started CropDetect], None)
      | CropResult (Some c) \<Rightarrow>
          ([StepChanged Analyzing, Started CropDetect, StepChanged (DetectedCrop c)], None))"

text \<open>
  \<^verbatim>\<open>run_powertrim_job\<close> with a worker whose flag is not set at the start. The mapping
  arguments are computed once by \<^const>\<open>generate_ffmpeg_mapping_args\<close> and only go into the
  command lines of the trims.
\<close>

definition run_powertrim_job :: "settings \<Rightarrow> world \<Rightarrow> job_result" where
  "run_powertrim_job st w =
     (if segments_raw st = [] then
        ([], False, Inl (ValueError ''No valid segments found to process.''))
      else
        (case probe w of
           ProbeNotRun e \<Rightarrow> ([], False, Inl e)
         | ProbeFailed e \<Rightarrow> ([Started Probe], False, Inl e)
         | ProbeOk meta \<Rightarrow>
             (let frame_rate = meta_fps meta in
              if mode st = ''frames'' \<and> frame_rate = 0 then
                ([Started Probe], False,
                 Inl (ValueError ''Frame mode selected, but could not determine frame rate.''))
              else
                (let segments_in_seconds =
                       (if mode st = ''frames''
                        then map (\<lambda>s. (of_int (fst s) / frame_rate, of_int (snd s) / frame_rate))
                               (segments_raw st)
                        else map (\<lambda>s. (of_int (fst s), of_int (snd s))) (segments_raw st));
                     (evs_crop, crop_error) =
                       (if autocrop st then detect_black_bars w else ([], None));
                     total_clips = length segments_in_seconds
                 in case crop_error of
                      Some e \<Rightarrow> (Started Probe # evs_crop, False, Inl e)
                    | None \<Rightarrow>
                        (case (if merge st
                               then merge_loop st w total_clips 0 segments_in_seconds False
                               else clips_loop st w meta total_clips 0
                                      (zip (segments_raw st) segments_in_seconds) False) of
                           (evs, c, r) \<Rightarrow> (Started Probe # evs_crop @ evs, c, r))))))"

text \<open>
  \<^verbatim>\<open>ExportWorker.run\<close>: everything the caller observes of one export.
\<close>

definition ExportWorker_run :: "settings \<Rightarrow> world \<Rightarrow> event list" where
  "ExportWorker_run st w =
     (case run_powertrim_job st w of
        (evs, cancelled, Inl e) \<Rightarrow> evs @ [Failed e]
      | (evs, cancelled, Inr result_path) \<Rightarrow>
          if \<not> cancelled then evs @ [Finished result_path] else evs)"


text \<open>
  The example of the specification: segments (0,100) and (100,250) at 25 frames per
  second, merged, in copy mode; the same with separate clips; both with a template that
  names \<^verbatim>\<open>{bogus}\<close>; and an environment in which \<^verbatim>\<open>stop()\<close> is called after the first
  clip is done.
\<close>

definition quiet_run :: seg_run where
  "quiet_run = \<lparr>stop_before = False, found = True, stderr_lines = [], returncode = 0\<rparr>"

definition ex_meta :: video_meta where
  "ex_meta = \<lparr>meta_fps = 25, meta_duration = 10, meta_resolution = codes ''1920x1080'',
              meta_streams = ex_streams\<rparr>"

definition ex_world :: world where
  "ex_world = \<lparr>probe = ProbeOk ex_meta, crop = CropResult None, runs = (\<lambda>i. quiet_run),
               stop_before_merge = False, concat_error = None,
               now_date = codes ''2026-01-01'', now_time = codes ''10-00-00''\<rparr>"

definition cancel_world :: world where
  "cancel_world = ex_world\<lparr>runs := (\<lambda>i. if i = 1 then quiet_run\<lparr>stop_before := True\<rparr> else quiet_run)\<rparr>"

definition ex_settings :: settings where
  "ex_settings = \<lparr>input_stem = codes ''movie'', input_suffix = codes ''.mkv'', mode = ''frames'',
     segments_raw = [(0, 100), (100, 250)],
     output_template = [Field ''filename'', Lit ''_segment_'', FieldPad ''num'' 3],
     merge = True, video_mode = ''copy'', autocrop = False, lang_priority = [''eng''],
     selected_track_ids = [1], output_dir = codes ''/out'', output_file = codes ''/out/merged.mkv''\<rparr>"

definition bogus_template :: "piece list" where
  "bogus_template = [Lit ''clip_'', Field ''bogus'']"

definition bogus_clips :: settings where
  "bogus_clips = ex_settings\<lparr>merge := False, output_template := bogus_template\<rparr>"

definition bogus_merged :: settings where
  "bogus_merged = ex_settings\<lparr>output_template := bogus_template\<rparr>"

section \<open>Properties\<close>

subsection \<open>sanitize_filename\<close>

lemma re_sub_illegal_clean: "c \<in> set (re_sub_illegal s) \<Longrightarrow> c \<notin> illegal_chars"
  by (auto simp: re_sub_illegal_def illegal_chars_def)

text \<open>
  C10: for every input string, the result of \<^verbatim>\<open>sanitize_filename\<close> contains none of the
  characters \<^verbatim>\<open>< > : " / \ | ? *\<close>; a fullwidth colon of the input is first turned into
  \<^verbatim>\<open>:\<close> and then replaced by \<^verbatim>\<open>_\<close> like any other colon.
\<close>

theorem sanitize_filename_clean:
  "set (sanitize_filename s) \<inter> illegal_chars = {}
   \<and> sanitize_filename (pre @ [65306] @ post)
       = sanitize_filename pre @ [95] @ sanitize_filename post"
proof
  show "set (sanitize_filename s) \<inter> illegal_chars = {}"
    using re_sub_illegal_clean unfolding sanitize_filename_def by blast
next
  show "sanitize_filename (pre @ [65306] @ post)
        = sanitize_filename pre @ [95] @ sanitize_filename post"
    by (simp add: sanitize_filename_def re_sub_illegal_def replace_char_def illegal_chars_def)
qed

subsection \<open>Track mapper\<close>

lemma py_index_None: "py_index xs x = None \<longleftrightarrow> x \<notin> set xs"
  by (induction xs) auto

lemma py_index_Some:
  "py_index xs x = Some p \<Longrightarrow> p < length xs \<and> xs ! p = x \<and> (\<forall>j<p. xs ! j \<noteq> x)"
proof (induction xs arbitrary: p)
  case Nil
  then show ?case by simp
next
  case (Cons y ys)
  show ?case
  proof (cases "y = x")
    case True
    with Cons.prems show ?thesis by simp
  next
    case False
    with Cons.prems obtain q where q: "py_index ys x = Some q" "p = Suc q"
      by auto
    from Cons.IH [OF q(1)] False q(2) show ?thesis
      by (auto simp: nth_Cons split: nat.splits)
  qed
qed


lemma map_tracks_nth:
  "map_tracks k i ts = concat (map (\<lambda>j. [''-map'', ''0:'' @ str_nat (stream_index (ts ! j)),
      ''-disposition:'' @ [k] @ '':'' @ str_nat (i + j), if i + j = 0 then ''default'' else ''0'']) [0..<length ts])"
proof (induction ts arbitrary: i)
  case Nil
  then show ?case by simp
next
  case (Cons t ts)
  have "[0..<length (t # ts)] = 0 # map Suc [0..<length ts]"
    by (simp add: upt_conv_Cons map_Suc_upt del: upt_Suc)
  then show ?case
    by (simp add: Cons.IH [of "Suc i"] comp_def del: upt_Suc)
qed

lemma map_tracks_0: "map_tracks k 0 ts = concat (map (directive k ts) [0..<length ts])"
  unfolding map_tracks_nth [of k 0 ts] directive_def by simp

lemma an_notin_map_video: "''-an'' \<notin> set (map_video ts)" "''-sn'' \<notin> set (map_video ts)"
  by (induction ts) auto

lemma an_notin_map_tracks: "''-an'' \<notin> set (map_tracks k i ts)" "''-sn'' \<notin> set (map_tracks k i ts)"
  by (induction ts arbitrary: i) auto

lemma sort_key_track_snd: "snd (sort_key_track P t) = stream_id t"
  by (simp add: sort_key_track_def Let_def split: option.splits)

lemma sort_key_track_unlisted:
  "lang_tag t \<notin> set P \<Longrightarrow> sort_key_track P t = (length P, stream_id t)"
  by (simp add: sort_key_track_def lang_tag_def Let_def py_index_None [symmetric])

lemma sort_key_track_listed:
  assumes "lang_tag t \<in> set P"
  shows "fst (sort_key_track P t) < length P \<and> P ! fst (sort_key_track P t) = lang_tag t
         \<and> (\<forall>j < fst (sort_key_track P t). P ! j \<noteq> lang_tag t)"
proof -
  from assms obtain p where p: "py_index P (lang_tag t) = Some p"
    using py_index_None [of P "lang_tag t"] by (cases "py_index P (lang_tag t)") auto
  then have "sort_key_track P t = (p, stream_id t)"
    by (simp add: sort_key_track_def lang_tag_def Let_def)
  with py_index_Some [OF p] show ?thesis by simp
qed

text \<open>
  C3, as amended: the mapper takes exactly the audio and the subtitle streams whose ids are
  selected; each type is sorted, stably, by the pair of the position in the priority list
  of the stream's language tag (lower-cased, \<^verbatim>\<open>'und'\<close> when absent; the length of the
  list when that tag is not listed) and the stream id; the arguments are the video
  mappings, then for each type the mapping and disposition of every sorted stream, with
  \<^verbatim>\<open>default\<close> at position 0 only and \<^verbatim>\<open>0\<close> after it. On the example of the
  specification the order is 2, 1, 3 with stream 2 the default.
\<close>

theorem track_mapper_order:
  "mset (audio_tracks S sel P) = mset (filter (\<lambda>t. codec_type t = ''audio'' \<and> stream_id t \<in> set sel) S)
   \<and> mset (subtitle_tracks S sel P) = mset (filter (\<lambda>t. codec_type t = ''subtitle'' \<and> stream_id t \<in> set sel) S)
   \<and> sorted (map (sort_key_track P) (audio_tracks S sel P))
   \<and> sorted (map (sort_key_track P) (subtitle_tracks S sel P))
   \<and> filter (\<lambda>t. sort_key_track P t = key) (audio_tracks S sel P)
       = filter (\<lambda>t. sort_key_track P t = key) (filter (\<lambda>t. codec_type t = ''audio'' \<and> stream_id t \<in> set sel) S)
   \<and> filter (\<lambda>t. sort_key_track P t = key) (subtitle_tracks S sel P)
       = filter (\<lambda>t. sort_key_track P t = key) (filter (\<lambda>t. codec_type t = ''subtitle'' \<and> stream_id t \<in> set sel) S)
   \<and> snd (sort_key_track P t) = stream_id t
   \<and> (lang_tag t \<notin> set P \<longrightarrow> fst (sort_key_track P t) = length P)
   \<and> (lang_tag t \<in> set P \<longrightarrow> fst (sort_key_track P t) < length P \<and> P ! fst (sort_key_track P t) = lang_tag t
         \<and> (\<forall>j < fst (sort_key_track P t). P ! j \<noteq> lang_tag t))
   \<and> generate_ffmpeg_mapping_args S sel P
       = map_video (filter (\<lambda>t. codec_type t = ''video'') S)
         @ (if audio_tracks S sel P = [] then [''-an'']
            else concat (map (directive CHR ''a'' (audio_tracks S sel P)) [0..<length (audio_tracks S sel P)]))
         @ (if subtitle_tracks S sel P = [] then [''-sn'']
            else concat (map (directive CHR ''s'' (subtitle_tracks S sel P)) [0..<length (subtitle_tracks S sel P)]))
   \<and> (directive k ts i ! 3 = ''default'' \<longleftrightarrow> i = 0)
   \<and> (i \<noteq> 0 \<longrightarrow> directive k ts i ! 3 = ''0'')"
proof (intro conjI)
  show "generate_ffmpeg_mapping_args S sel P
       = map_video (filter (\<lambda>t. codec_type t = ''video'') S)
         @ (if audio_tracks S sel P = [] then [''-an'']
            else concat (map (directive CHR ''a'' (audio_tracks S sel P)) [0..<length (audio_tracks S sel P)]))
         @ (if subtitle_tracks S sel P = [] then [''-sn'']
            else concat (map (directive CHR ''s'' (subtitle_tracks S sel P)) [0..<length (subtitle_tracks S sel P)]))"
    by (simp add: generate_ffmpeg_mapping_args_def Let_def map_tracks_0)
  show "lang_tag t \<in> set P \<longrightarrow> fst (sort_key_track P t) < length P \<and> P ! fst (sort_key_track P t) = lang_tag t
         \<and> (\<forall>j < fst (sort_key_track P t). P ! j \<noteq> lang_tag t)"
    using sort_key_track_listed by blast
  show "lang_tag t \<notin> set P \<longrightarrow> fst (sort_key_track P t) = length P"
    by (simp add: sort_key_track_unlisted)
qed (simp_all add: audio_tracks_def subtitle_tracks_def sort_key_track_snd sort_key_stable directive_def)



theorem track_mapper_order_witness:
  "map stream_id (audio_tracks ex_streams [1, 2, 3] [''jpn'', ''eng'']) = [2, 1, 3]
   \<and> generate_ffmpeg_mapping_args ex_streams [1, 2, 3] [''jpn'', ''eng'']
       = [''-map'', ''0:2'', ''-disposition:a:0'', ''default'',
          ''-map'', ''0:1'', ''-disposition:a:1'', ''0'',
          ''-map'', ''0:3'', ''-disposition:a:2'', ''0'', ''-sn'']
   \<and> lang_tag (ex_streams ! 1) \<in> set [''jpn'', ''eng'']
   \<and> sort_key_track [''jpn'', ''eng''] (ex_streams ! 1) = (0, 2)
   \<and> lang_tag (ex_streams ! 2) \<notin> set [''jpn'', ''eng'']
   \<and> sort_key_track [''jpn'', ''eng''] (ex_streams ! 2) = (2, 3)
   \<and> directive CHR ''a'' (audio_tracks ex_streams [1, 2, 3] [''jpn'', ''eng'']) 1 ! 3 = ''0''"
proof -
  let ?P = "[''jpn'', ''eng'']"
  let ?a = "audio_tracks ex_streams [1, 2, 3] ?P"
  note T1 = track_mapper_order [of ex_streams "[1, 2, 3]" ?P "(0, 2)" "ex_streams ! 1" "CHR ''a''" ?a 1]
  note T2 = track_mapper_order [of ex_streams "[1, 2, 3]" ?P "(0, 2)" "ex_streams ! 2" "CHR ''a''" ?a 1]
  have order: "map stream_id ?a = [2, 1, 3]"
    by code_simp
  have listed: "lang_tag (ex_streams ! 1) \<in> set ?P"
    by code_simp
  have unlisted: "lang_tag (ex_streams ! 2) \<notin> set ?P"
    by code_simp
  have id1: "stream_id (ex_streams ! 1) = 2" and id2: "stream_id (ex_streams ! 2) = 3"
    by (simp_all add: ex_streams_def)
  have tag1: "lang_tag (ex_streams ! 1) = ''jpn''"
    by code_simp
  from T1 listed have "?P ! fst (sort_key_track ?P (ex_streams ! 1)) = ''jpn''"
    and "fst (sort_key_track ?P (ex_streams ! 1)) < length ?P"
    and "snd (sort_key_track ?P (ex_streams ! 1)) = stream_id (ex_streams ! 1)"
    unfolding tag1 by blast+
  then have key1: "sort_key_track ?P (ex_streams ! 1) = (0, 2)"
    unfolding id1 by (cases "sort_key_track ?P (ex_streams ! 1)") (auto simp: nth_Cons split: nat.splits)
  from T2 unlisted have "fst (sort_key_track ?P (ex_streams ! 2)) = length ?P"
    and "snd (sort_key_track ?P (ex_streams ! 2)) = stream_id (ex_streams ! 2)"
    by blast+
  then have key2: "sort_key_track ?P (ex_streams ! 2) = (2, 3)"
    unfolding id2 by (cases "sort_key_track ?P (ex_streams ! 2)") auto
  from T1 have "directive CHR ''a'' ?a 1 ! 3 = ''0''"
    by simp
  moreover have "generate_ffmpeg_mapping_args ex_streams [1, 2, 3] ?P
       = [''-map'', ''0:2'', ''-disposition:a:0'', ''default'',
          ''-map'', ''0:1'', ''-disposition:a:1'', ''0'',
          ''-map'', ''0:3'', ''-disposition:a:2'', ''0'', ''-sn'']"
    by code_simp
  ultimately show ?thesis
    using order listed unlisted key1 key2 by blast
qed

text \<open>
  C3 as stated fails for a stream without a language tag when \<^verbatim>\<open>und\<close> is itself in the
  priority list: the untagged stream 1 is sorted at the position of \<^verbatim>\<open>und\<close>, before
  stream 2, and not after all listed priorities.
\<close>

theorem track_mapper_absent_language_counterexample:
  "map stream_id (audio_tracks cx_streams [1, 2] [''und'', ''eng'']) = [1, 2]
   \<and> language (cx_streams ! 0) = None
   \<and> \<not> sorted (map (spec_sort_key [''und'', ''eng'']) (audio_tracks cx_streams [1, 2] [''und'', ''eng'']))"
  by code_simp

lemma sort_key_Nil_iff: "sort_key f xs = [] \<longleftrightarrow> xs = []"
  by (metis length_sort length_0_conv)

text \<open>
  C8: the arguments contain \<^verbatim>\<open>-an\<close> exactly when no audio stream is selected, and
  \<^verbatim>\<open>-sn\<close> exactly when no subtitle stream is selected, whatever the other type does.
\<close>

theorem no_track_directive:
  "(''-an'' \<in> set (generate_ffmpeg_mapping_args S sel P))
     = (filter (\<lambda>t. codec_type t = ''audio'' \<and> stream_id t \<in> set sel) S = [])
   \<and> (''-sn'' \<in> set (generate_ffmpeg_mapping_args S sel P))
     = (filter (\<lambda>t. codec_type t = ''subtitle'' \<and> stream_id t \<in> set sel) S = [])"
  by (simp add: generate_ffmpeg_mapping_args_def Let_def audio_tracks_def subtitle_tracks_def
      sort_key_Nil_iff an_notin_map_video an_notin_map_tracks)

theorem no_track_directive_witness:
  "filter (\<lambda>t. codec_type t = ''subtitle'' \<and> stream_id t \<in> set [1, 2, 3]) ex_streams = []
   \<and> ''-sn'' \<in> set (generate_ffmpeg_mapping_args ex_streams [1, 2, 3] [''jpn'', ''eng''])
   \<and> ''-an'' \<in> set (generate_ffmpeg_mapping_args ex_streams [] [''jpn'', ''eng''])"
  using no_track_directive [of ex_streams "[1, 2, 3]" "[''jpn'', ''eng'']"]
    no_track_directive [of ex_streams "[]" "[''jpn'', ''eng'']"]
  by (simp add: ex_streams_def)

subsection \<open>Dirty notification\<close>




subsection \<open>Segment store and commands\<close>

lemma remove_segment_int:
  "remove_segment (int i) segs = (if i < length segs then take i segs @ drop (Suc i) segs else segs)"
  by (simp add: remove_segment_def)

lemma add_segment_int: "add_segment d (int i) segs = take i segs @ [Segment d] @ drop i segs"
proof -
  have "nat (min (int i) (int (length segs))) = min i (length segs)"
    by linarith
  then show ?thesis
    by (simp add: add_segment_def py_insert_def Let_def min_def)
qed

lemma Segment_name: "name (Segment d) \<noteq> []"
  by (cases d) (simp add: Segment_def)

lemma Segment_data_of: "name s \<noteq> [] \<Longrightarrow> Segment (data_of s) = s"
  by (simp add: Segment_def data_of_def)

lemma names_ok_nth: "names_ok segs \<Longrightarrow> i < length segs \<Longrightarrow> Segment (data_of (segs ! i)) = segs ! i"
  by (simp add: names_ok_def list_all_length Segment_data_of)

lemma names_ok_map: "names_ok segs \<Longrightarrow> map Segment (map data_of segs) = segs"
  by (induction segs) (simp_all add: names_ok_def Segment_data_of)

lemma names_ok_append: "names_ok (xs @ ys) = (names_ok xs \<and> names_ok ys)"
  by (simp add: names_ok_def)

lemma names_ok_take: "names_ok segs \<Longrightarrow> names_ok (take n segs)"
  by (metis append_take_drop_id names_ok_append)

lemma names_ok_drop: "names_ok segs \<Longrightarrow> names_ok (drop n segs)"
  by (metis append_take_drop_id names_ok_append)

lemma names_ok_add: "names_ok segs \<Longrightarrow> names_ok (add_segment d i segs)"
  by (auto simp: add_segment_def py_insert_def Let_def names_ok_def list_all_iff Segment_name
      dest: in_set_takeD in_set_dropD)

lemma names_ok_remove: "names_ok segs \<Longrightarrow> names_ok (remove_segment i segs)"
  by (simp add: remove_segment_def names_ok_append names_ok_take names_ok_drop)

lemma names_ok_update: "names_ok segs \<Longrightarrow> names_ok (update_segment i d segs)"
  by (auto simp: update_segment_def names_ok_def list_all_length nth_list_update Segment_name
      split: if_splits)

lemma names_ok_set: "names_ok (set_segments ds)"
  by (simp add: set_segments_def names_ok_def list_all_iff Segment_name)

lemma names_ok_fold_remove: "names_ok segs \<Longrightarrow> names_ok (fold remove_segment is segs)"
  by (induction "is" arbitrary: segs) (simp_all add: names_ok_remove)

lemma restore_append:
  "length a = length da \<Longrightarrow>
   restore (a @ b) (da @ db) X = (case restore a da X of None \<Rightarrow> None | Some Y \<Rightarrow> restore b db Y)"
proof (induction a da X rule: restore.induct)
  case (1 original_data segs)
  then show ?case by simp
next
  case (2 index rest segs)
  then show ?case by simp
next
  case (3 index rest d ds segs)
  then show ?case by simp
qed

lemma capture_map:
  "\<forall>i \<in> set ns. i < length segs \<Longrightarrow>
   capture segs (map int ns) = Some (map (\<lambda>i. data_of (segs ! i)) ns)"
  by (induction ns) (simp_all add: py_nth_def)


lemma sorted_snoc_less:
  "sorted (ns @ [k]) \<Longrightarrow> distinct (ns @ [k]) \<Longrightarrow> i \<in> set ns \<Longrightarrow> i < (k::nat)"
  by (metis (no_types, lifting) distinct_append in_set_conv_decomp le_neq_implies_less
      disjoint_iff list.set_intros(1) sorted_append)

lemma merge_roundtrip_core:
  "sorted ns \<Longrightarrow> distinct ns \<Longrightarrow> \<forall>i \<in> set ns. i < length segs \<Longrightarrow> names_ok segs \<Longrightarrow>
   restore (map int ns) (map (\<lambda>i. data_of (segs ! i)) ns)
     (fold remove_segment (rev (map int ns)) segs) = Some segs
   \<and> length (fold remove_segment (rev (map int ns)) segs) = length segs - length ns"
proof (induction ns arbitrary: segs rule: rev_induct)
  case Nil
  then show ?case by simp
next
  case (snoc k ns)
  let ?rest = "take k segs @ drop (Suc k) segs"
  have k: "k < length segs"
    using snoc.prems(3) by simp
  have less: "\<forall>i \<in> set ns. i < k"
    using sorted_snoc_less [OF snoc.prems(1,2)] by blast
  have len1: "length ?rest = length segs - 1"
    using k by simp
  have in1: "\<forall>i \<in> set ns. i < length ?rest"
    using less k len1 by fastforce
  have ok1: "names_ok ?rest"
    using snoc.prems(4) by (simp add: names_ok_append names_ok_take names_ok_drop)
  have s: "sorted ns" and d: "distinct ns"
    using snoc.prems(1,2) by (simp_all add: sorted_append)
  note IH = snoc.IH [OF s d in1 ok1]
  have same: "map (\<lambda>i. data_of (?rest ! i)) ns = map (\<lambda>i. data_of (segs ! i)) ns"
    using less k by (simp add: nth_append)
  have fold1: "fold remove_segment (rev (map int (ns @ [k]))) segs
       = fold remove_segment (rev (map int ns)) ?rest"
    using k by (simp add: remove_segment_int)
  have reinsert: "add_segment (data_of (segs ! k)) (int k) ?rest = segs"
  proof -
    have "take k ?rest = take k segs" and "drop k ?rest = drop (Suc k) segs"
      using k by simp_all
    then have "add_segment (data_of (segs ! k)) (int k) ?rest
        = take k segs @ [Segment (data_of (segs ! k))] @ drop (Suc k) segs"
      by (simp only: add_segment_int)
    also have "\<dots> = take k segs @ [segs ! k] @ drop (Suc k) segs"
      using names_ok_nth [OF snoc.prems(4) k] by simp
    also have "\<dots> = segs"
      using k by (simp add: Cons_nth_drop_Suc)
    finally show ?thesis .
  qed
  have "restore (map int (ns @ [k])) (map (\<lambda>i. data_of (segs ! i)) (ns @ [k]))
          (fold remove_segment (rev (map int (ns @ [k]))) segs)
        = restore (map int ns @ [int k]) (map (\<lambda>i. data_of (?rest ! i)) ns @ [data_of (segs ! k)])
          (fold remove_segment (rev (map int ns)) ?rest)"
    unfolding fold1 same by simp
  also have "\<dots> = restore [int k] [data_of (segs ! k)] ?rest"
    using IH by (simp add: restore_append)
  also have "\<dots> = Some segs"
    using reinsert by simp
  finally have r: "restore (map int (ns @ [k])) (map (\<lambda>i. data_of (segs ! i)) (ns @ [k]))
          (fold remove_segment (rev (map int (ns @ [k]))) segs) = Some segs" .
  have "length (fold remove_segment (rev (map int (ns @ [k]))) segs) = length ?rest - length ns"
    unfolding fold1 using IH by simp
  then have l: "length (fold remove_segment (rev (map int (ns @ [k]))) segs)
       = length segs - length (ns @ [k])"
    using len1 by simp
  from r l show ?case by blast
qed

lemma hd_plus_length_le:
  assumes "sorted ns" "distinct ns" "\<forall>i \<in> set ns. i < n" "ns \<noteq> []"
  shows "hd ns + length ns \<le> (n::nat)"
proof -
  have "set ns \<subseteq> {hd ns ..< n}"
    using assms by (cases ns) auto
  then have "card (set ns) \<le> card {hd ns ..< n}"
    by (intro card_mono) simp_all
  then have "length ns \<le> n - hd ns"
    using assms(2) by (simp add: distinct_card)
  moreover have "hd ns < n"
    using assms(3,4) by simp
  ultimately show ?thesis by linarith
qed


lemma py_nth_last: "xs \<noteq> [] \<Longrightarrow> py_nth xs (- 1) = Some (last xs)"
proof -
  assume "xs \<noteq> []"
  then have "nat (int (length xs) - 1) = length xs - 1" and "Suc 0 \<le> length xs"
    by (simp_all add: Suc_le_eq)
  then show ?thesis
    using \<open>xs \<noteq> []\<close> by (simp add: py_nth_def last_conv_nth)
qed

lemma remove_add_same:
  "h \<le> length X \<Longrightarrow> remove_segment (int h) (add_segment d (int h) X) = X"
  by (simp add: add_segment_int remove_segment_int)

lemma merge_step:
  assumes ok: "names_ok segs"
    and b: "built_from segs (MergeSegmentsCommand indices merged [] (- 1))"
  defines "ns \<equiv> map nat (sort indices)"
  defines "ds \<equiv> map (\<lambda>i. data_of (segs ! i)) ns"
  defines "X \<equiv> fold remove_segment indices segs"
  defines "c' \<equiv> MergeSegmentsCommand indices merged ds (int (hd ns))"
  shows "cmd_execute (MergeSegmentsCommand indices merged [] (- 1)) segs
           = Some (c', add_segment merged (int (hd ns)) X)"
    and "cmd_undo c' (add_segment merged (int (hd ns)) X) = Some segs"
    and "cmd_execute c' segs = Some (c', add_segment merged (int (hd ns)) X)"
    and "length X = length segs - length indices"
    and "hd ns \<le> length X"
proof -
  from b have ne: "indices \<noteq> []" and dist: "distinct indices"
    and desc: "indices = rev (sort indices)"
    and range: "\<forall>i \<in> set indices. 0 \<le> i \<and> i < int (length segs)"
    by (simp_all add: list_all_iff)
  have ints: "map int ns = sort indices"
  proof -
    have "\<forall>i \<in> set (sort indices). int (nat i) = i"
      using range by simp
    then have "map (\<lambda>i. int (nat i)) (sort indices) = sort indices"
      by (intro map_idI) blast
    then show ?thesis
      unfolding ns_def by (simp add: comp_def)
  qed
  have sorted_ns: "sorted ns"
  proof -
    have "sorted (map int ns)" unfolding ints by simp
    then show ?thesis
      by (simp add: sorted_iff_nth_mono)
  qed
  have distinct_ns: "distinct ns"
  proof -
    have "distinct (map int ns)" unfolding ints using dist by simp
    then show ?thesis by (simp add: distinct_map)
  qed
  have in_range: "\<forall>i \<in> set ns. i < length segs"
    unfolding ns_def using range by auto
  have ns_ne: "ns \<noteq> []"
    unfolding ns_def using ne by (metis length_map length_sort length_0_conv)
  have idx: "indices = rev (map int ns)"
    using desc ints by simp
  have len_ns: "length ns = length indices"
    unfolding ns_def by simp
  note core = merge_roundtrip_core [OF sorted_ns distinct_ns in_range ok]
  have X: "X = fold remove_segment (rev (map int ns)) segs"
    unfolding X_def using idx by simp
  show lenX: "length X = length segs - length indices"
    using core X len_ns by simp
  show h: "hd ns \<le> length X"
    using hd_plus_length_le [OF sorted_ns distinct_ns in_range ns_ne] lenX len_ns by linarith
  have cap: "capture segs (sort indices) = Some ds"
    unfolding ints [symmetric] ds_def using in_range by (rule capture_map)
  have lst: "py_nth indices (- 1) = Some (int (hd ns))"
  proof -
    have "last indices = hd (map int ns)"
      using idx ns_ne by (simp add: last_rev)
    then show ?thesis
      using ne ns_ne by (simp add: py_nth_last hd_map)
  qed
  have ds_ne: "ds \<noteq> []"
    unfolding ds_def using ns_ne by simp
  show "cmd_execute (MergeSegmentsCommand indices merged [] (- 1)) segs
           = Some (c', add_segment merged (int (hd ns)) X)"
    using cap lst by (simp add: c'_def X_def Let_def)
  show "cmd_execute c' segs = Some (c', add_segment merged (int (hd ns)) X)"
    using ds_ne lst by (simp add: c'_def X_def Let_def)
  show "cmd_undo c' (add_segment merged (int (hd ns)) X) = Some segs"
    using core h by (simp add: c'_def remove_add_same ints [symmetric] ds_def X)
qed


lemma step_roundtrip:
  assumes ok: "names_ok segs" and b: "built_from segs c"
  shows "\<exists>c' segs'. cmd_execute c segs = Some (c', segs') \<and> names_ok segs'
           \<and> cmd_undo c' segs' = Some segs \<and> cmd_execute c' segs = Some (c', segs')"
proof (cases c)
  case (AddSegmentCommand d)
  have "remove_segment (int (length (segs @ [Segment d])) - 1) (segs @ [Segment d]) = segs"
    by (simp add: remove_segment_def)
  then show ?thesis
    using ok AddSegmentCommand by (simp add: add_segment_def names_ok_append) (simp add: names_ok_def Segment_name)
next
  case (DeleteSegmentCommand i d)
  with b have i: "0 \<le> i" "nat i < length segs" and d: "d = data_of (segs ! nat i)"
    by auto
  have ii: "i = int (nat i)" using i by simp
  have "add_segment d i (remove_segment i segs) = segs"
  proof -
    have "add_segment d (int (nat i)) (remove_segment (int (nat i)) segs)
        = take (nat i) segs @ [Segment d] @ drop (Suc (nat i)) segs"
      using i by (simp only: add_segment_int remove_segment_int) simp
    also have "\<dots> = take (nat i) segs @ [segs ! nat i] @ drop (Suc (nat i)) segs"
      using names_ok_nth [OF ok i(2)] d by simp
    also have "\<dots> = segs"
      using i by (simp add: Cons_nth_drop_Suc)
    finally show ?thesis using ii by simp
  qed
  then show ?thesis
    using ok DeleteSegmentCommand by (simp add: names_ok_remove)
next
  case (UpdateSegmentCommand i old new)
  with b have i: "0 \<le> i" "nat i < length segs" and d: "old = data_of (segs ! nat i)"
    by auto
  have "update_segment i old (update_segment i new segs) = segs"
    using i names_ok_nth [OF ok i(2)] d by (simp add: update_segment_def)
  then show ?thesis
    using ok UpdateSegmentCommand by (simp add: names_ok_update)
next
  case (ImportSegmentsCommand old new)
  with b have "old = map data_of segs" by simp
  then have "set_segments old = segs"
    using names_ok_map [OF ok] by (simp add: set_segments_def)
  then show ?thesis
    using ImportSegmentsCommand by (simp add: names_ok_set)
next
  case (MergeSegmentsCommand indices merged orig ins)
  with b have o: "orig = []" "ins = - 1" by simp_all
  from b have b': "built_from segs (MergeSegmentsCommand indices merged [] (- 1))"
    unfolding MergeSegmentsCommand o .
  note m = merge_step [OF ok b']
  have "names_ok (add_segment merged (int (hd (map nat (sort indices)))) (fold remove_segment indices segs))"
    using ok by (simp add: names_ok_add names_ok_fold_remove)
  with m(1,2,3) show ?thesis
    unfolding MergeSegmentsCommand o by blast
qed


lemma undo_times_add:
  "undo_times (m + n) st = (case undo_times m st of None \<Rightarrow> None | Some st' \<Rightarrow> undo_times n st')"
  by (induction m arbitrary: st) (simp_all split: option.splits)

lemma undo_top:
  "cmd_undo c segs' = Some segs \<Longrightarrow>
   undo \<lparr>segments = segs', undo_stack = U @ [c], redo_stack = R, command_executed = k, warnings = w\<rparr>
     = Some \<lparr>segments = segs, undo_stack = U, redo_stack = R @ [c], command_executed = Suc k, warnings = w\<rparr>"
  by (simp add: undo_def)

lemma redo_top:
  "cmd_execute c segs = Some (c', segs') \<Longrightarrow>
   redo \<lparr>segments = segs, undo_stack = U, redo_stack = R @ [c], command_executed = k, warnings = w\<rparr>
     = Some \<lparr>segments = segs', undo_stack = U @ [c'], redo_stack = R, command_executed = Suc k, warnings = w\<rparr>"
  by (simp add: redo_def)

lemma execute_state:
  "cmd_execute c segs = Some (c', segs') \<Longrightarrow>
   execute \<lparr>segments = segs, undo_stack = U, redo_stack = R, command_executed = k, warnings = w\<rparr> c
     = Some \<lparr>segments = segs', undo_stack = U @ [c'], redo_stack = [], command_executed = Suc k, warnings = w\<rparr>"
  by (simp add: execute_def)

lemma seq_roundtrip:
  "names_ok segs \<Longrightarrow> built_seq segs cs \<Longrightarrow>
   \<exists>hs segs1. length hs = length cs \<and> names_ok segs1
     \<and> (\<forall>U R k w. execute_all
           \<lparr>segments = segs, undo_stack = U, redo_stack = R, command_executed = k, warnings = w\<rparr> cs
         = Some \<lparr>segments = segs1, undo_stack = U @ hs, redo_stack = (if cs = [] then R else []),
                  command_executed = k + length cs, warnings = w\<rparr>)
     \<and> (\<forall>U R k w. undo_times (length cs)
           \<lparr>segments = segs1, undo_stack = U @ hs, redo_stack = R, command_executed = k, warnings = w\<rparr>
         = Some \<lparr>segments = segs, undo_stack = U, redo_stack = R @ rev hs,
                  command_executed = k + length cs, warnings = w\<rparr>)
     \<and> (\<forall>U R k w. redo_times (length cs)
           \<lparr>segments = segs, undo_stack = U, redo_stack = R @ rev hs, command_executed = k, warnings = w\<rparr>
         = Some \<lparr>segments = segs1, undo_stack = U @ hs, redo_stack = R,
                  command_executed = k + length cs, warnings = w\<rparr>)"
proof (induction cs arbitrary: segs)
  case Nil
  then show ?case by simp
next
  case (Cons c cs)
  from Cons.prems(2) have b: "built_from segs c" by simp
  from step_roundtrip [OF Cons.prems(1) b] obtain c' segs' where
    ex: "cmd_execute c segs = Some (c', segs')" and ok': "names_ok segs'"
    and un: "cmd_undo c' segs' = Some segs" and re: "cmd_execute c' segs = Some (c', segs')"
    by blast
  from Cons.prems(2) ex have bs: "built_seq segs' cs" by simp
  from Cons.IH [OF ok' bs] obtain hs segs1 where
    len: "length hs = length cs" and ok1: "names_ok segs1"
    and E: "\<And>U R k w. execute_all
           \<lparr>segments = segs', undo_stack = U, redo_stack = R, command_executed = k, warnings = w\<rparr> cs
         = Some \<lparr>segments = segs1, undo_stack = U @ hs, redo_stack = (if cs = [] then R else []),
                  command_executed = k + length cs, warnings = w\<rparr>"
    and Un: "\<And>U R k w. undo_times (length cs)
           \<lparr>segments = segs1, undo_stack = U @ hs, redo_stack = R, command_executed = k, warnings = w\<rparr>
         = Some \<lparr>segments = segs', undo_stack = U, redo_stack = R @ rev hs,
                  command_executed = k + length cs, warnings = w\<rparr>"
    and Re: "\<And>U R k w. redo_times (length cs)
           \<lparr>segments = segs', undo_stack = U, redo_stack = R @ rev hs, command_executed = k, warnings = w\<rparr>
         = Some \<lparr>segments = segs1, undo_stack = U @ hs, redo_stack = R,
                  command_executed = k + length cs, warnings = w\<rparr>"
    by blast
  have E': "execute_all
           \<lparr>segments = segs, undo_stack = U, redo_stack = R, command_executed = k, warnings = w\<rparr> (c # cs)
         = Some \<lparr>segments = segs1, undo_stack = U @ c' # hs, redo_stack = [],
                  command_executed = k + length (c # cs), warnings = w\<rparr>" for U R k w
    using E [of "U @ [c']" "[]" "Suc k" w] by (simp add: execute_state [OF ex])
  have Un': "undo_times (length (c # cs))
           \<lparr>segments = segs1, undo_stack = U @ c' # hs, redo_stack = R, command_executed = k, warnings = w\<rparr>
         = Some \<lparr>segments = segs, undo_stack = U, redo_stack = R @ rev (c' # hs),
                  command_executed = k + length (c # cs), warnings = w\<rparr>" for U R k w
  proof -
    have "undo_times (length cs + 1)
           \<lparr>segments = segs1, undo_stack = (U @ [c']) @ hs, redo_stack = R, command_executed = k, warnings = w\<rparr>
        = undo_times 1 \<lparr>segments = segs', undo_stack = U @ [c'], redo_stack = R @ rev hs,
                  command_executed = k + length cs, warnings = w\<rparr>"
      unfolding undo_times_add Un by simp
    also have "\<dots> = Some \<lparr>segments = segs, undo_stack = U, redo_stack = (R @ rev hs) @ [c'],
                  command_executed = Suc (k + length cs), warnings = w\<rparr>"
      by (simp add: undo_top [OF un])
    finally show ?thesis by simp
  qed
  have Re': "redo_times (length (c # cs))
           \<lparr>segments = segs, undo_stack = U, redo_stack = R @ rev (c' # hs), command_executed = k, warnings = w\<rparr>
         = Some \<lparr>segments = segs1, undo_stack = U @ c' # hs, redo_stack = R,
                  command_executed = k + length (c # cs), warnings = w\<rparr>" for U R k w
    using Re [of "U @ [c']" R "Suc k" w] redo_top [OF re, of U "R @ rev hs" k w] by simp
  have "length (c' # hs) = length (c # cs)"
    using len by simp
  with ok1 E' Un' Re' show ?case
    by (intro exI [of _ "c' # hs"] exI [of _ segs1]) simp
qed



subsection \<open>Undo and redo\<close>

text \<open>
  C6: from any store whose segments come from the constructor, N commands (add, delete,
  update, import, merge), each built by its caller from the store it finds, all execute;
  N calls of \<^verbatim>\<open>undo\<close> then return the segment list, and the undo stack, to what they
  were before the sequence; and N calls of \<^verbatim>\<open>redo\<close> after that give again the segment
  list and both stacks reached after the N executions.
\<close>

theorem undo_redo_roundtrip:
  assumes "names_ok (segments st)" and "built_seq (segments st) cmds"
  shows "\<exists>st1 st2 st1'. execute_all st cmds = Some st1
           \<and> undo_times (length cmds) st1 = Some st2
           \<and> segments st2 = segments st \<and> undo_stack st2 = undo_stack st
           \<and> redo_times (length cmds) st2 = Some st1'
           \<and> segments st1' = segments st1 \<and> undo_stack st1' = undo_stack st1
           \<and> redo_stack st1' = redo_stack st1"
proof -
  obtain segs U R k w where st:
    "st = \<lparr>segments = segs, undo_stack = U, redo_stack = R, command_executed = k, warnings = w\<rparr>"
    by (cases st) simp
  from assms have "names_ok segs" and "built_seq segs cmds"
    unfolding st by simp_all
  from seq_roundtrip [OF this] obtain hs segs1 where
    E: "execute_all st cmds
         = Some \<lparr>segments = segs1, undo_stack = U @ hs, redo_stack = (if cmds = [] then R else []),
                  command_executed = k + length cmds, warnings = w\<rparr>"
    and Un: "\<And>U R k w. undo_times (length cmds)
           \<lparr>segments = segs1, undo_stack = U @ hs, redo_stack = R, command_executed = k, warnings = w\<rparr>
         = Some \<lparr>segments = segs, undo_stack = U, redo_stack = R @ rev hs,
                  command_executed = k + length cmds, warnings = w\<rparr>"
    and Re: "\<And>U R k w. redo_times (length cmds)
           \<lparr>segments = segs, undo_stack = U, redo_stack = R @ rev hs, command_executed = k, warnings = w\<rparr>
         = Some \<lparr>segments = segs1, undo_stack = U @ hs, redo_stack = R,
                  command_executed = k + length cmds, warnings = w\<rparr>"
    unfolding st by blast
  show ?thesis
    unfolding E using Un Re by (simp add: st)
qed

theorem undo_redo_roundtrip_witness:
  "names_ok (segments st3) \<and> built_seq (segments st3) ex_cmds
   \<and> (\<exists>st1 st2 st1'. execute_all st3 ex_cmds = Some st1
           \<and> undo_times (length ex_cmds) st1 = Some st2
           \<and> segments st2 = segments st3 \<and> undo_stack st2 = undo_stack st3
           \<and> redo_times (length ex_cmds) st2 = Some st1'
           \<and> segments st1' = segments st1 \<and> undo_stack st1' = undo_stack st1
           \<and> redo_stack st1' = redo_stack st1)"
proof -
  have n: "names_ok (segments st3)"
    by code_simp
  have b: "built_seq (segments st3) ex_cmds"
    by code_simp
  from undo_redo_roundtrip [OF n b] n b show ?thesis
    by blast
qed

subsection \<open>Merging the selected segments\<close>

lemma selected_items_map:
  "list_all (\<lambda>r. 0 \<le> r \<and> r < int (length segs)) rows \<Longrightarrow>
   selected_items segs rows = Some (map (\<lambda>r. (r, segs ! nat r)) rows)"
  by (induction rows) simp_all

lemma map_snd_insort_key:
  "map snd (insort_key (\<lambda>x. f (snd x)) a xs) = insort_key f (snd a) (map snd xs)"
  by (induction xs) simp_all

lemma map_snd_sort_key:
  "map snd (sort_key (\<lambda>x. f (snd x)) xs) = sort_key f (map snd xs)"
  by (induction xs) (simp_all add: map_snd_insort_key)

lemma adjacent_iff:
  "adjacent_or_overlapping ss
     = (\<forall>i. Suc i < length ss \<longrightarrow> \<not> end_frame (ss ! i) < start_frame (ss ! Suc i) - 1)"
proof (induction ss rule: adjacent_or_overlapping.induct)
  case (1 a b rest)
  show ?case
  proof (cases "end_frame a < start_frame b - 1")
    case True
    then have "\<not> (\<forall>i. Suc i < length (a # b # rest) \<longrightarrow>
        \<not> end_frame ((a # b # rest) ! i) < start_frame ((a # b # rest) ! Suc i) - 1)"
      by (auto intro: exI [of _ 0])
    with True show ?thesis by simp
  next
    case False
    have "(\<forall>i. Suc i < length (a # b # rest) \<longrightarrow>
        \<not> end_frame ((a # b # rest) ! i) < start_frame ((a # b # rest) ! Suc i) - 1)
      = (\<forall>i. Suc i < length (b # rest) \<longrightarrow>
        \<not> end_frame ((b # rest) ! i) < start_frame ((b # rest) ! Suc i) - 1)"
      (is "?L = ?R")
    proof
      assume L: ?L
      show ?R
      proof (intro allI impI)
        fix i assume "Suc i < length (b # rest)"
        with L [rule_format, of "Suc i"] show
          "\<not> end_frame ((b # rest) ! i) < start_frame ((b # rest) ! Suc i) - 1"
          by simp
      qed
    next
      assume R: ?R
      show ?L
      proof (intro allI impI)
        fix i assume i: "Suc i < length (a # b # rest)"
        show "\<not> end_frame ((a # b # rest) ! i) < start_frame ((a # b # rest) ! Suc i) - 1"
        proof (cases i)
          case 0
          with False show ?thesis by simp
        next
          case (Suc j)
          with i R [rule_format, of j] show ?thesis by simp
        qed
      qed
    qed
    with False 1 show ?thesis by simp
  qed
qed simp_all

lemma adjacent_pairwise: "adjacent_or_overlapping ss = pairwise_adjacent ss"
proof -
  have "(\<forall>i. Suc i < length ss \<longrightarrow> \<not> end_frame (ss ! i) < start_frame (ss ! Suc i) - 1)
      = (\<forall>i \<in> {0..<length ss - 1}. start_frame (ss ! Suc i) - 1 \<le> end_frame (ss ! i))"
    by (auto simp: not_less less_diff_conv)
  then show ?thesis
    by (simp add: adjacent_iff pairwise_adjacent_def list_all_iff)
qed

lemma py_max_Max:
  assumes "xs \<noteq> []"
  shows "py_max xs = Some (Max (set xs))"
proof (cases xs)
  case Nil
  with assms show ?thesis by simp
next
  case (Cons x rest)
  have "Max (set (x # rest)) = fold max rest x"
    by (rule Max.set_eq_fold)
  with Cons show ?thesis by simp
qed

lemma hd_sort_key_Min:
  assumes "xs \<noteq> []"
  shows "f (hd (sort_key f xs)) = Min (f ` set xs)"
proof -
  let ?ys = "map f (sort_key f xs)"
  have ne: "?ys \<noteq> []" using assms by (metis length_map length_sort length_0_conv)
  have "sorted ?ys" by simp
  then have "hd ?ys = Min (set ?ys)"
    using ne by (cases ?ys) (auto simp: Min_insert2 intro!: Min_eqI [symmetric])
  moreover have "hd ?ys = f (hd (sort_key f xs))"
    using ne by (simp add: hd_map)
  ultimately show ?thesis by simp
qed

lemma sort_cong_mset: "mset xs = mset ys \<Longrightarrow> sort xs = sort ys"
  by (metis mset_sort properties_for_sort sorted_sort)


lemma nths_cong_below:
  "(\<And>i. i < length xs \<Longrightarrow> (i \<in> A) = (i \<in> B)) \<Longrightarrow> nths xs A = nths xs B"
proof -
  assume eq: "\<And>i. i < length xs \<Longrightarrow> (i \<in> A) = (i \<in> B)"
  have "filter (\<lambda>p. snd p \<in> A) (zip xs [0..<length xs])
      = filter (\<lambda>p. snd p \<in> B) (zip xs [0..<length xs])"
  proof (rule filter_cong [OF refl])
    fix p assume "p \<in> set (zip xs [0..<length xs])"
    then have "snd p < length xs"
      by (metis atLeastLessThan_iff prod.collapse set_upt set_zip_rightD)
    then show "(snd p \<in> A) = (snd p \<in> B)" by (rule eq)
  qed
  then show ?thesis by (simp add: nths_def)
qed

lemma fold_remove_nths:
  "sorted ns \<Longrightarrow> distinct ns \<Longrightarrow> \<forall>i \<in> set ns. i < length segs \<Longrightarrow>
   fold remove_segment (rev (map int ns)) segs = nths segs {i. i \<notin> set ns}"
proof (induction ns arbitrary: segs rule: rev_induct)
  case Nil
  have "nths segs UNIV = segs"
    by (rule nths_all) simp
  then show ?case by simp
next
  case (snoc k ns)
  let ?rest = "take k segs @ drop (Suc k) segs"
  let ?A = "{i. i \<notin> set ns}"
  let ?B = "{i. i \<notin> set (ns @ [k])}"
  have k: "k < length segs"
    using snoc.prems(3) by simp
  have less: "\<forall>i \<in> set ns. i < k"
    using sorted_snoc_less [OF snoc.prems(1,2)] by blast
  have in1: "\<forall>i \<in> set ns. i < length ?rest"
    using less k by fastforce
  have s: "sorted ns" and d: "distinct ns"
    using snoc.prems(1,2) by (simp_all add: sorted_append)
  have "fold remove_segment (rev (map int (ns @ [k]))) segs
       = fold remove_segment (rev (map int ns)) ?rest"
    using k by (simp add: remove_segment_int)
  also have "\<dots> = nths ?rest ?A"
    by (rule snoc.IH [OF s d in1])
  also have "\<dots> = nths (take k segs) ?A @ nths (drop (Suc k) segs) {j. j + k \<in> ?A}"
    using k by (simp add: nths_append min_def)
  also have "nths (drop (Suc k) segs) {j. j + k \<in> ?A} = drop (Suc k) segs"
    using less by (intro nths_all) fastforce
  also have "nths (take k segs) ?A = nths (take k segs) ?B"
    by (rule nths_cong_below) auto
  finally have lhs: "fold remove_segment (rev (map int (ns @ [k]))) segs
      = nths (take k segs) ?B @ drop (Suc k) segs" .
  have "nths segs ?B = nths (take k segs @ segs ! k # drop (Suc k) segs) ?B"
    using k by (simp add: id_take_nth_drop [symmetric])
  also have "\<dots> = nths (take k segs) ?B @ nths (segs ! k # drop (Suc k) segs) {j. j + k \<in> ?B}"
    using k by (simp add: nths_append min_def)
  also have "nths (segs ! k # drop (Suc k) segs) {j. j + k \<in> ?B}
      = nths (drop (Suc k) segs) {j. Suc j + k \<in> ?B}"
    by (simp add: nths_Cons)
  also have "\<dots> = drop (Suc k) segs"
    using less by (intro nths_all) fastforce
  finally show ?case
    using lhs by simp
qed

lemma hd_sort_Min: "xs \<noteq> [] \<Longrightarrow> hd (sort xs) = Min (set xs)"
  using hd_sort_key_Min [of xs "\<lambda>x. x"] by simp


lemma length_fold_remove:
  "sorted ns \<Longrightarrow> distinct ns \<Longrightarrow> \<forall>i \<in> set ns. i < length segs \<Longrightarrow>
   length (fold remove_segment (rev (map int ns)) segs) = length segs - length ns"
proof (induction ns arbitrary: segs rule: rev_induct)
  case Nil
  then show ?case by simp
next
  case (snoc k ns)
  let ?rest = "take k segs @ drop (Suc k) segs"
  have k: "k < length segs"
    using snoc.prems(3) by simp
  have less: "\<forall>i \<in> set ns. i < k"
    using sorted_snoc_less [OF snoc.prems(1,2)] by blast
  have in1: "\<forall>i \<in> set ns. i < length ?rest"
    using less k by fastforce
  have s: "sorted ns" and d: "distinct ns"
    using snoc.prems(1,2) by (simp_all add: sorted_append)
  have "fold remove_segment (rev (map int (ns @ [k]))) segs
       = fold remove_segment (rev (map int ns)) ?rest"
    using k by (simp add: remove_segment_int)
  then show ?case
    using snoc.IH [OF s d in1] k by simp
qed

lemma selection_rows:
  assumes "selection segs rows" "rows \<noteq> []"
  defines "ns \<equiv> map nat (sort rows)"
  shows "map int ns = sort rows" and "sorted ns" and "distinct ns"
    and "\<forall>i \<in> set ns. i < length segs" and "ns \<noteq> []"
    and "hd ns = nat (Min (set rows))" and "{i. i \<notin> set ns} = {i. int i \<notin> set rows}"
proof -
  from assms(1) have dist: "distinct rows"
    and range: "\<forall>i \<in> set rows. 0 \<le> i \<and> i < int (length segs)"
    by (simp_all add: selection_def list_all_iff)
  have "\<forall>i \<in> set (sort rows). int (nat i) = i"
    using range by simp
  then have "map (\<lambda>i. int (nat i)) (sort rows) = sort rows"
    by (intro map_idI) blast
  then show ints: "map int ns = sort rows"
    unfolding ns_def by (simp add: comp_def)
  have "sorted (map int ns)" unfolding ints by simp
  then show "sorted ns"
    by (simp add: sorted_iff_nth_mono)
  have "distinct (map int ns)" unfolding ints using dist by simp
  then show "distinct ns" by (simp add: distinct_map)
  show "\<forall>i \<in> set ns. i < length segs"
    unfolding ns_def using range by auto
  show ne: "ns \<noteq> []"
    unfolding ns_def using assms(2) by (metis length_map length_sort length_0_conv)
  have "sort rows \<noteq> []"
    using assms(2) by (metis length_sort length_0_conv)
  then show "hd ns = nat (Min (set rows))"
    unfolding ns_def using assms(2) by (simp add: hd_map hd_sort_Min)
  have "set ns = nat ` set rows"
    unfolding ns_def by simp
  then show "{i. i \<notin> set ns} = {i. int i \<notin> set rows}"
    using range by (auto simp: image_iff)
qed

lemma merge_execute_shape:
  assumes sel: "selection segs rows" and ne: "rows \<noteq> []"
  defines "m \<equiv> nat (Min (set rows))"
  defines "rest \<equiv> nths segs {i. int i \<notin> set rows}"
  shows "\<exists>ds. ds \<noteq> [] \<and> cmd_execute (MergeSegmentsCommand (rev (sort rows)) merged [] (- 1)) segs
           = Some (MergeSegmentsCommand (rev (sort rows)) merged ds (int m),
                   take m rest @ [Segment merged] @ drop m rest)"
proof -
  let ?ns = "map nat (sort rows)"
  note r = selection_rows [OF sel ne]
  have srt: "sort (rev (sort rows)) = sort rows"
    by (rule sort_cong_mset) simp
  have "capture segs (map int ?ns) = Some (map (\<lambda>i. data_of (segs ! i)) ?ns)"
    using r(4) by (rule capture_map)
  then have cap: "capture segs (sort rows) = Some (map (\<lambda>i. data_of (segs ! i)) ?ns)"
    by (simp only: r(1))
  have "last (rev (sort rows)) = hd (map int ?ns)"
    unfolding r(1) using r(5) by (simp add: last_rev)
  then have lst: "py_nth (rev (sort rows)) (- 1) = Some (int m)"
    using r(5) r(6) by (simp add: py_nth_last hd_map m_def)
  have "fold remove_segment (rev (map int ?ns)) segs = nths segs {i. i \<notin> set ?ns}"
    by (rule fold_remove_nths [OF r(2,3,4)])
  then have X: "fold remove_segment (rev (sort rows)) segs = rest"
    by (simp only: r(1) r(7) rest_def)
  have "map (\<lambda>i. data_of (segs ! i)) ?ns \<noteq> []"
    using r(5) by simp
  then show ?thesis
    using cap lst X by (simp add: srt Let_def add_segment_int)
qed


lemma merge_selected_eq:
  assumes sel: "selection (segments st) rows" and two: "2 \<le> length rows"
  shows "merge_selected_segments st rows =
     (if \<not> pairwise_adjacent (selected_sorted (segments st) rows)
      then Some (st\<lparr>warnings := warnings st
                   @ [''Segments must be adjacent or overlapping to be combined.'']\<rparr>)
      else execute st (MergeSegmentsCommand (rev (sort rows))
             (merged_data_of (segments st) rows) [] (- 1)))"
proof -
  let ?segs = "segments st"
  let ?items = "map (\<lambda>r. (r, ?segs ! nat r)) rows"
  let ?sp = "sort_key (\<lambda>x. start_frame (snd x)) ?items"
  let ?ss = "selected_sorted ?segs rows"
  from sel have range: "list_all (\<lambda>r. 0 \<le> r \<and> r < int (length ?segs)) rows"
    by (simp add: selection_def)
  have items: "selected_items ?segs rows = Some ?items"
    using range by (rule selected_items_map)
  have ne: "rows \<noteq> []" using two by auto
  have a: "map snd ?sp = ?ss"
    by (simp add: map_snd_sort_key selected_sorted_def comp_def)
  have ss_ne: "?ss \<noteq> []"
    unfolding selected_sorted_def using ne by (metis length_map length_sort length_0_conv)
  have sp_ne: "?sp \<noteq> []"
    using a ss_ne by auto
  have b: "map (\<lambda>s. end_frame (snd s)) ?sp = map end_frame ?ss"
    unfolding a [symmetric] by (simp add: comp_def)
  have c: "py_max (map end_frame ?ss) = Some (Max (end_frame ` set ?ss))"
    using py_max_Max [of "map end_frame ?ss"] ss_ne by simp
  have d: "snd (hd ?sp) = hd ?ss"
    unfolding a [symmetric] using sp_ne by (simp add: hd_map)
  have e: "start_frame (hd ?ss) = Min (start_frame ` set ?ss)"
    unfolding selected_sorted_def
    using hd_sort_key_Min [of "map (\<lambda>r. ?segs ! nat r) rows" start_frame] ne by simp
  have "mset (map fst ?sp) = image_mset fst (mset ?sp)"
    by simp
  also have "\<dots> = image_mset fst (mset ?items)"
    by (simp only: mset_sort)
  also have "\<dots> = mset (map fst ?items)"
    by (simp only: mset_map)
  also have "map fst ?items = rows"
    by (simp add: comp_def)
  finally have "mset (map fst ?sp) = mset rows" .
  then have "sort (map fst ?sp) = sort rows"
    by (rule sort_cong_mset)
  then have f: "new_MergeSegmentsCommand (map fst ?sp) md
      = MergeSegmentsCommand (rev (sort rows)) md [] (- 1)" for md
    by (simp add: new_MergeSegmentsCommand_def)
  have len: "\<not> length ?items < 2" using two by simp
  show ?thesis
    unfolding merge_selected_segments_def items
    using len
    by (simp add: Let_def a b c d e f adjacent_pairwise merged_data_of_def del: sort_key_simps)
qed


lemma built_from_merge:
  assumes sel: "selection segs rows" and ne: "rows \<noteq> []"
  shows "built_from segs (MergeSegmentsCommand (rev (sort rows)) md [] (- 1))"
proof -
  have "sort (rev (sort rows)) = sort rows"
    by (rule sort_cong_mset) simp
  moreover have "sort rows \<noteq> []"
    using ne by (metis length_sort length_0_conv)
  ultimately show ?thesis
    using sel by (simp add: selection_def list_all_iff)
qed

lemma set_selected_sorted: "set (selected_sorted segs rows) = (\<lambda>r. segs ! nat r) ` set rows"
  by (simp add: selected_sorted_def)

lemma merged_data_fields:
  "start_frame (Segment (merged_data_of segs rows)) = Min ((\<lambda>r. start_frame (segs ! nat r)) ` set rows)"
  "end_frame (Segment (merged_data_of segs rows)) = Max ((\<lambda>r. end_frame (segs ! nat r)) ` set rows)"
  "color (Segment (merged_data_of segs rows)) = color (hd (selected_sorted segs rows))"
  by (simp_all add: merged_data_of_def Segment_def Let_def set_selected_sorted image_image)

lemma earliest_selected:
  assumes "rows \<noteq> []"
  shows "hd (selected_sorted segs rows) \<in> (\<lambda>r. segs ! nat r) ` set rows"
    and "start_frame (hd (selected_sorted segs rows)) = Min ((\<lambda>r. start_frame (segs ! nat r)) ` set rows)"
proof -
  have ne: "selected_sorted segs rows \<noteq> []"
    unfolding selected_sorted_def using assms by (metis length_map length_sort length_0_conv)
  then have "hd (selected_sorted segs rows) \<in> set (selected_sorted segs rows)"
    by simp
  then show "hd (selected_sorted segs rows) \<in> (\<lambda>r. segs ! nat r) ` set rows"
    by (simp only: set_selected_sorted)
  show "start_frame (hd (selected_sorted segs rows)) = Min ((\<lambda>r. start_frame (segs ! nat r)) ` set rows)"
    unfolding selected_sorted_def
    using hd_sort_key_Min [of "map (\<lambda>r. segs ! nat r) rows" start_frame] assms
    by (simp add: image_image)
qed

text \<open>
  C4, as amended: for a selection of rows of the list, fewer than two rows change nothing;
  two or more whose segments, sorted by start, are not pairwise adjacent or overlapping
  only show the warning, and segments and stacks stay as they are; otherwise the selected
  segments are taken out and one new segment is put in at the smallest selected row,
  spanning from the least start to the greatest end, with the colour of the selected
  segment that comes first in the order of the starts.
\<close>

theorem merge_selected_segments_outcome:
  assumes sel: "selection (segments st) rows"
  shows "(length rows < 2 \<longrightarrow> merge_selected_segments st rows = Some st)
   \<and> (2 \<le> length rows \<and> \<not> pairwise_adjacent (selected_sorted (segments st) rows) \<longrightarrow>
        merge_selected_segments st rows
          = Some (st\<lparr>warnings := warnings st
                    @ [''Segments must be adjacent or overlapping to be combined.'']\<rparr>))
   \<and> (2 \<le> length rows \<and> pairwise_adjacent (selected_sorted (segments st) rows) \<longrightarrow>
        (\<exists>st'. merge_selected_segments st rows = Some st'
           \<and> segments st'
               = take (nat (Min (set rows))) (nths (segments st) {i. int i \<notin> set rows})
                 @ [Segment (merged_data_of (segments st) rows)]
                 @ drop (nat (Min (set rows))) (nths (segments st) {i. int i \<notin> set rows})
           \<and> nat (Min (set rows)) \<le> length (nths (segments st) {i. int i \<notin> set rows})
           \<and> segments st' ! nat (Min (set rows)) = Segment (merged_data_of (segments st) rows)
           \<and> start_frame (Segment (merged_data_of (segments st) rows))
               = Min ((\<lambda>r. start_frame (segments st ! nat r)) ` set rows)
           \<and> end_frame (Segment (merged_data_of (segments st) rows))
               = Max ((\<lambda>r. end_frame (segments st ! nat r)) ` set rows)
           \<and> color (Segment (merged_data_of (segments st) rows))
               = color (hd (selected_sorted (segments st) rows))
           \<and> hd (selected_sorted (segments st) rows) \<in> (\<lambda>r. segments st ! nat r) ` set rows
           \<and> start_frame (hd (selected_sorted (segments st) rows))
               = Min ((\<lambda>r. start_frame (segments st ! nat r)) ` set rows)))"
proof (intro conjI impI)
  assume "length rows < 2"
  moreover from sel have "selected_items (segments st) rows = Some (map (\<lambda>r. (r, segments st ! nat r)) rows)"
    by (simp add: selection_def selected_items_map)
  ultimately show "merge_selected_segments st rows = Some st"
    by (simp add: merge_selected_segments_def)
next
  assume "2 \<le> length rows \<and> \<not> pairwise_adjacent (selected_sorted (segments st) rows)"
  then show "merge_selected_segments st rows
          = Some (st\<lparr>warnings := warnings st
                    @ [''Segments must be adjacent or overlapping to be combined.'']\<rparr>)"
    using merge_selected_eq [OF sel] by simp
next
  let ?m = "nat (Min (set rows))"
  let ?rest = "nths (segments st) {i. int i \<notin> set rows}"
  let ?md = "merged_data_of (segments st) rows"
  assume a: "2 \<le> length rows \<and> pairwise_adjacent (selected_sorted (segments st) rows)"
  then have ne: "rows \<noteq> []" by auto
  from merge_execute_shape [OF sel ne, of ?md] obtain ds where
    ex: "cmd_execute (MergeSegmentsCommand (rev (sort rows)) ?md [] (- 1)) (segments st)
           = Some (MergeSegmentsCommand (rev (sort rows)) ?md ds (int ?m),
                   take ?m ?rest @ [Segment ?md] @ drop ?m ?rest)"
    by blast
  note r = selection_rows [OF sel ne]
  have "length ?rest = length (segments st) - length rows"
  proof -
    have "length (fold remove_segment (rev (map int (map nat (sort rows)))) (segments st))
        = length (segments st) - length (map nat (sort rows))"
      by (rule length_fold_remove [OF r(2,3,4)])
    moreover have "fold remove_segment (rev (map int (map nat (sort rows)))) (segments st)
        = nths (segments st) {i. i \<notin> set (map nat (sort rows))}"
      by (rule fold_remove_nths [OF r(2,3,4)])
    ultimately show ?thesis
      by (simp only: r(7) length_map length_sort)
  qed
  moreover have "hd (map nat (sort rows)) + length (map nat (sort rows)) \<le> length (segments st)"
    by (rule hd_plus_length_le [OF r(2,3,4,5)])
  ultimately have m: "?m \<le> length ?rest"
    using r(6) by simp
  then have nth: "(take ?m ?rest @ [Segment ?md] @ drop ?m ?rest) ! ?m = Segment ?md"
    by (simp add: nth_append)
  from a ex have "merge_selected_segments st rows
      = Some (st\<lparr>segments := take ?m ?rest @ [Segment ?md] @ drop ?m ?rest,
                 undo_stack := undo_stack st @ [MergeSegmentsCommand (rev (sort rows)) ?md ds (int ?m)],
                 redo_stack := [], command_executed := Suc (command_executed st)\<rparr>)"
    using merge_selected_eq [OF sel] by (simp add: execute_def)
  with m nth earliest_selected [OF ne, of "segments st"] show "\<exists>st'. merge_selected_segments st rows = Some st'
           \<and> segments st' = take ?m ?rest @ [Segment ?md] @ drop ?m ?rest
           \<and> ?m \<le> length ?rest
           \<and> segments st' ! ?m = Segment ?md
           \<and> start_frame (Segment ?md) = Min ((\<lambda>r. start_frame (segments st ! nat r)) ` set rows)
           \<and> end_frame (Segment ?md) = Max ((\<lambda>r. end_frame (segments st ! nat r)) ` set rows)
           \<and> color (Segment ?md) = color (hd (selected_sorted (segments st) rows))
           \<and> hd (selected_sorted (segments st) rows) \<in> (\<lambda>r. segments st ! nat r) ` set rows
           \<and> start_frame (hd (selected_sorted (segments st) rows))
               = Min ((\<lambda>r. start_frame (segments st ! nat r)) ` set rows)"
    by (simp add: merged_data_fields)
qed

theorem merge_selected_segments_outcome_witness:
  "selection (segments st3) [0, 1] \<and> 2 \<le> length [0, 1 :: int]
   \<and> pairwise_adjacent (selected_sorted (segments st3) [0, 1])
   \<and> (\<exists>st'. merge_selected_segments st3 [0, 1] = Some st'
         \<and> segments st' ! nat (Min (set [0, 1])) = Segment (merged_data_of (segments st3) [0, 1]))
   \<and> selection (segments st3) [1, 2]
   \<and> \<not> pairwise_adjacent (selected_sorted (segments st3) [1, 2])
   \<and> merge_selected_segments st3 [1, 2]
       = Some (st3\<lparr>warnings := warnings st3
                 @ [''Segments must be adjacent or overlapping to be combined.'']\<rparr>)
   \<and> selection (segments st3) [2] \<and> length [2 :: int] < 2
   \<and> merge_selected_segments st3 [2] = Some st3"
proof -
  have s1: "selection (segments st3) [0, 1]" and s2: "selection (segments st3) [1, 2]"
    and s3: "selection (segments st3) [2]"
    by code_simp+
  have a1: "pairwise_adjacent (selected_sorted (segments st3) [0, 1])"
    by code_simp
  have a2: "\<not> pairwise_adjacent (selected_sorted (segments st3) [1, 2])"
    by code_simp
  have l: "2 \<le> length [0, 1 :: int]" "2 \<le> length [1, 2 :: int]" "length [2 :: int] < 2"
    by simp_all
  from merge_selected_segments_outcome [OF s1] l(1) a1
  have "\<exists>st'. merge_selected_segments st3 [0, 1] = Some st'
         \<and> segments st' ! nat (Min (set [0, 1])) = Segment (merged_data_of (segments st3) [0, 1])"
    by blast
  moreover from merge_selected_segments_outcome [OF s2] l(2) a2
  have "merge_selected_segments st3 [1, 2]
       = Some (st3\<lparr>warnings := warnings st3
                 @ [''Segments must be adjacent or overlapping to be combined.'']\<rparr>)"
    by blast
  moreover from merge_selected_segments_outcome [OF s3] l(3)
  have "merge_selected_segments st3 [2] = Some st3"
    by blast
  ultimately show ?thesis
    using s1 s2 s3 a1 a2 l by blast
qed

text \<open>
  C4 as stated fails on the place of the merged segment: with rows 0 and 1 of three
  segments selected, the merged segment is at row 0, the smallest selected row, and row 1,
  the last selected one, holds the segment that was not selected.
\<close>

theorem merge_position_counterexample:
  "map_option segments (merge_selected_segments st3 [0, 1])
     = Some [\<lparr>start_frame = 0, end_frame = 20, color = 1, name = ''Merged [0-20]''\<rparr>,
             \<lparr>start_frame = 30, end_frame = 40, color = 3, name = ''Segment [30-40]''\<rparr>]"
  by code_simp

text \<open>
  C5: from a store whose segments come from the constructor, merging a selection of two or
  more rows that are pairwise adjacent or overlapping and then calling \<^verbatim>\<open>undo\<close> gives
  back the segment list as it was, every segment at its row, and the undo stack as it was.
\<close>

theorem merge_then_undo:
  assumes ok: "names_ok (segments st)" and sel: "selection (segments st) rows"
    and two: "2 \<le> length rows"
    and adj: "pairwise_adjacent (selected_sorted (segments st) rows)"
  shows "\<exists>st1 st2. merge_selected_segments st rows = Some st1 \<and> undo st1 = Some st2
           \<and> segments st2 = segments st \<and> undo_stack st2 = undo_stack st"
proof -
  let ?c = "MergeSegmentsCommand (rev (sort rows)) (merged_data_of (segments st) rows) [] (- 1)"
  have ne: "rows \<noteq> []" using two by auto
  have b: "built_from (segments st) ?c"
    by (rule built_from_merge [OF sel ne])
  from step_roundtrip [OF ok b] obtain c' segs' where
    ex: "cmd_execute ?c (segments st) = Some (c', segs')"
    and un: "cmd_undo c' segs' = Some (segments st)"
    by blast
  have "merge_selected_segments st rows = execute st ?c"
    using merge_selected_eq [OF sel two] adj by simp
  also have "\<dots> = Some (st\<lparr>segments := segs', undo_stack := undo_stack st @ [c'], redo_stack := [],
                  command_executed := Suc (command_executed st)\<rparr>)"
    using ex by (simp add: execute_def)
  finally have m: "merge_selected_segments st rows
      = Some (st\<lparr>segments := segs', undo_stack := undo_stack st @ [c'], redo_stack := [],
                  command_executed := Suc (command_executed st)\<rparr>)" .
  have "\<exists>st2. undo (st\<lparr>segments := segs', undo_stack := undo_stack st @ [c'], redo_stack := [],
                  command_executed := Suc (command_executed st)\<rparr>) = Some st2
           \<and> segments st2 = segments st \<and> undo_stack st2 = undo_stack st"
    using un by (simp add: undo_def)
  with m show ?thesis by simp
qed

theorem merge_then_undo_witness:
  "names_ok (segments st3) \<and> selection (segments st3) [1, 0] \<and> 2 \<le> length [1, 0 :: int]
   \<and> pairwise_adjacent (selected_sorted (segments st3) [1, 0])
   \<and> (\<exists>st1 st2. merge_selected_segments st3 [1, 0] = Some st1 \<and> undo st1 = Some st2
           \<and> segments st2 = segments st3 \<and> undo_stack st2 = undo_stack st3)"
proof -
  have n: "names_ok (segments st3)"
    by code_simp
  have s: "selection (segments st3) [1, 0]"
    by code_simp
  have t: "2 \<le> length [1, 0 :: int]"
    by simp
  have a: "pairwise_adjacent (selected_sorted (segments st3) [1, 0])"
    by code_simp
  from merge_then_undo [OF n s t a] n s t a show ?thesis
    by blast
qed

subsection \<open>Progress of a trim\<close>














subsection \<open>Export job\<close>







lemma pad_int_3: "pad_int 3 1 = ''001''" "pad_int 3 2 = ''002''"
  by code_simp+

lemmas job_eval = run_powertrim_job_def ExportWorker_run_def ex_settings_def ex_world_def
  ex_meta_def quiet_run_def bogus_template_def bogus_merged_def bogus_clips_def cancel_world_def
  format_output_filename_def seg_template_data_def trim_video_segment_def video_extension_def
  pad_int_3 codes_def



subsection \<open>Cancellation\<close>

lemma cancelled_before_segment:
  "stop_before (runs w i) \<Longrightarrow>
   merge_loop st w n i (seg # rest) c = ([], True, Inr (codes ''Cancelled''))"
  "stop_before (runs w i) \<Longrightarrow>
   clips_loop st w meta n i (pair # pairs) c = ([], True, Inr (codes ''Cancelled''))"
  by (cases seg, simp) (cases pair, cases "snd pair", simp)

lemma cancelled_run_reports_nothing:
  "run_powertrim_job st w = (evs, True, Inr r) \<Longrightarrow> ExportWorker_run st w = evs"
  by (simp add: ExportWorker_run_def)

text \<open>
  C2 on the example of the specification, with \<^verbatim>\<open>stop()\<close> called after the first clip
  is done: the second trim is not started and the job returns the marker
  \<^verbatim>\<open>Cancelled\<close>, but \<^verbatim>\<open>ExportWorker.run\<close> emits \<^verbatim>\<open>finished\<close> only while the flag is not
  set, so the caller observes no \<^verbatim>\<open>finished\<close> signal at all.
\<close>

theorem export_cancelled_no_finished:
  "run_powertrim_job ex_settings cancel_world
     = ([Started Probe, ClipStarted 1 2, StepChanged (ProcessingClip 1 2),
         Started (Trim (codes ''temp_001.mkv''))], True, Inr (codes ''Cancelled''))
   \<and> ExportWorker_run ex_settings cancel_world
     = [Started Probe, ClipStarted 1 2, StepChanged (ProcessingClip 1 2),
        Started (Trim (codes ''temp_001.mkv''))]"
  by (simp add: job_eval)

end
